theory Spec2Isabelle
  imports Main "HOL-Library.Word"
begin

section \<open>Bytes, hash algorithms and errors\<close>

type_synonym byte = "8 word"
type_synonym bytes = "byte list"

text \<open>
  Go's \<open>crypto.Hash\<close>: the registered hash functions of the standard library, in the
  order of their declaration. \<open>hash_size\<close> is \<open>crypto.Hash.Size()\<close>.
\<close>

datatype crypto_hash =
    MD4 | MD5 | SHA1 | SHA224 | SHA256 | SHA384 | SHA512 | MD5SHA1 | RIPEMD160
  | SHA3_224 | SHA3_256 | SHA3_384 | SHA3_512 | SHA512_224 | SHA512_256
  | BLAKE2s_256 | BLAKE2b_256 | BLAKE2b_384 | BLAKE2b_512

fun hash_size :: "crypto_hash \<Rightarrow> nat" where
  "hash_size MD4 = 16"
| "hash_size MD5 = 16"
| "hash_size SHA1 = 20"
| "hash_size SHA224 = 28"
| "hash_size SHA256 = 32"
| "hash_size SHA384 = 48"
| "hash_size SHA512 = 64"
| "hash_size MD5SHA1 = 36"
| "hash_size RIPEMD160 = 20"
| "hash_size SHA3_224 = 28"
| "hash_size SHA3_256 = 32"
| "hash_size SHA3_384 = 48"
| "hash_size SHA3_512 = 64"
| "hash_size SHA512_224 = 28"
| "hash_size SHA512_256 = 32"
| "hash_size BLAKE2s_256 = 32"
| "hash_size BLAKE2b_256 = 32"
| "hash_size BLAKE2b_384 = 48"
| "hash_size BLAKE2b_512 = 64"

text \<open>
  A hash function is a parameter \<open>H\<close> of the model: \<open>H h xs\<close> is the digest that a
  fresh (or reset) hasher of algorithm \<open>h\<close> returns from \<open>Sum(nil)\<close> after the bytes
  \<open>xs\<close> were written to it. \<open>Sum\<close> does not reset the hasher.
\<close>

type_synonym hasher = "crypto_hash \<Rightarrow> bytes \<Rightarrow> bytes"

text \<open>
  Modelled from the spec: the TCG algorithm registry behind \<open>tpm2.HashToAlgorithm\<close> and
  \<open>tpm2.Algorithm.Hash\<close> (a library outside the repository): SHA-1 = 0x0004,
  SHA-256 = 0x000B, SHA-384 = 0x000C, SHA-512 = 0x000D; every other value is an error.
\<close>

datatype error =
    EOF
  | Panic
  | BufferEndsUnexpectedly
  | TLVLengthMismatch
  | NotRecnumField byte
  | RecnumLength nat
  | NotIndexField byte
  | IndexLength nat
  | NotDigestsField
  | HashNotSupported nat
  | NoTPMAlgorithm crypto_hash
  | DigestLength nat nat
  | UnknownMRType byte
  | BadRecord "64 word" error
  | DifferingMRTypes "64 word" byte byte
  | AppendArgs "crypto_hash list" int
  | ExtendFailed int crypto_hash error
  | NoDigestInRecord crypto_hash
  | MissingRegister byte
  | ReplayFailed crypto_hash "byte list"
  | Other nat

fun HashToAlgorithm :: "crypto_hash \<Rightarrow> error + nat" where
  "HashToAlgorithm SHA1 = Inr 0x4"
| "HashToAlgorithm SHA256 = Inr 0xB"
| "HashToAlgorithm SHA384 = Inr 0xC"
| "HashToAlgorithm SHA512 = Inr 0xD"
| "HashToAlgorithm h = Inl (NoTPMAlgorithm h)"

definition AlgorithmHash :: "nat \<Rightarrow> error + crypto_hash" where
  "AlgorithmHash a =
     (if a = 0x4 then Inr SHA1
      else if a = 0xB then Inr SHA256
      else if a = 0xC then Inr SHA384
      else if a = 0xD then Inr SHA512
      else Inl (HashNotSupported a))"

text \<open>
  A Go map is a HOL map. \<open>range\<close> over a map visits every entry once, in an order the
  language leaves open: the order is a parameter \<open>it\<close>, which proposes the keys of a map
  as a list. \<open>go_range\<close> keeps the proposed keys that are in the map, \<open>visits_once\<close>
  says that the proposal names every key of the map exactly once.
\<close>

type_synonym ('k, 'v) iter = "('k \<rightharpoonup> 'v) \<Rightarrow> 'k list"

definition go_range :: "('k, 'v) iter \<Rightarrow> ('k \<rightharpoonup> 'v) \<Rightarrow> ('k \<times> 'v) list" where
  "go_range it m = List.map_filter (\<lambda>k. map_option (Pair k) (m k)) (it m)"

definition visits_once :: "('k, 'v) iter \<Rightarrow> ('k \<rightharpoonup> 'v) \<Rightarrow> bool" where
  "visits_once it m \<longleftrightarrow> distinct (it m) \<and> dom m \<subseteq> set (it m)"

section \<open>Canonical event log: TLVs and records\<close>

record TLV =
  Type :: byte
  Value :: bytes

record Record =
  RecNum :: "64 word"
  Index :: byte
  IndexType :: byte
  Digests :: "crypto_hash \<rightharpoonup> bytes"
  Content :: TLV

record eventLog =
  Recs :: "Record list"
  MRType :: byte

definition PCRType :: byte where "PCRType = 1"
definition CCMRType :: byte where "CCMRType = 108"
definition recnumTypeValue :: byte where "recnumTypeValue = 0"
definition digestsTypeValue :: byte where "digestsTypeValue = 3"

text \<open>The \<open>Content\<close> interface: its two methods, each returning a value or an error.\<close>

record content =
  GenerateDigest :: "crypto_hash \<Rightarrow> error + bytes"
  GetTLV :: "error + TLV"

text \<open>
  An \<open>MRExtender\<close> acts on registers outside the log: a state \<open>'s\<close> that it may change
  whether or not it returns an error.
\<close>

type_synonym 's MRExtender = "crypto_hash \<Rightarrow> int \<Rightarrow> bytes \<Rightarrow> 's \<Rightarrow> error option \<times> 's"

definition supportedMRType :: "byte \<Rightarrow> error option" where
  "supportedMRType mrType =
     (if mrType \<noteq> PCRType \<and> mrType \<noteq> CCMRType then Some (UnknownMRType mrType) else None)"

fun generateDigestMap ::
  "crypto_hash list \<Rightarrow> content \<Rightarrow> (crypto_hash \<rightharpoonup> bytes) \<Rightarrow> error + (crypto_hash \<rightharpoonup> bytes)" where
  "generateDigestMap [] event digestsMap = Inr digestsMap"
| "generateDigestMap (hashAlgo # hashAlgos) event digestsMap =
     (case GenerateDigest event hashAlgo of
        Inl err \<Rightarrow> Inl err
      | Inr digest \<Rightarrow> generateDigestMap hashAlgos event (digestsMap(hashAlgo \<mapsto> digest)))"

text \<open>The loop of \<open>AppendEvent\<close> over the digest map: one extender call per entry.\<close>

fun extend_all ::
  "'s MRExtender \<Rightarrow> int \<Rightarrow> (crypto_hash \<times> bytes) list \<Rightarrow> 's \<Rightarrow> error option \<times> 's" where
  "extend_all extender mrIndex [] s = (None, s)"
| "extend_all extender mrIndex ((bank, dgst) # rest) s =
     (case extender bank mrIndex dgst s of
        (Some err, s') \<Rightarrow> (Some (ExtendFailed mrIndex bank err), s')
      | (None, s') \<Rightarrow> extend_all extender mrIndex rest s')"

text \<open>
  \<open>AppendEvent\<close> returns the error (if any), the log after the call and the state of
  the registers after the call. \<open>uint8(mrIndex)\<close> and \<open>uint64(len(c.Recs))\<close> are the
  conversions \<open>of_int\<close> and \<open>of_nat\<close> into the word types, which truncate.
\<close>

definition AppendEvent ::
  "(crypto_hash, bytes) iter \<Rightarrow> eventLog \<Rightarrow> content \<Rightarrow> crypto_hash list \<Rightarrow> int \<Rightarrow>
   's MRExtender \<Rightarrow> 's \<Rightarrow> error option \<times> eventLog \<times> 's" where
  "AppendEvent it c event bankAlgos mrIndex extender s =
     (if bankAlgos = [] \<or> mrIndex < 0 then (Some (AppendArgs bankAlgos mrIndex), c, s)
      else case supportedMRType (MRType c) of
        Some err \<Rightarrow> (Some err, c, s)
      | None \<Rightarrow>
          (case generateDigestMap bankAlgos event Map.empty of
             Inl err \<Rightarrow> (Some err, c, s)
           | Inr digestMap \<Rightarrow>
               (case extend_all extender mrIndex (go_range it digestMap) s of
                  (Some err, s') \<Rightarrow> (Some err, c, s')
                | (None, s') \<Rightarrow>
                    (case GetTLV event of
                       Inl err \<Rightarrow> (Some err, c, s')
                     | Inr eventTlv \<Rightarrow>
                         (None,
                          c\<lparr>Recs := Recs c @
                             [\<lparr>RecNum = of_nat (length (Recs c)),
                               Index = of_int mrIndex,
                               IndexType = MRType c,
                               Digests = digestMap,
                               Content = eventTlv\<rparr>]\<rparr>,
                          s')))))"

section \<open>Canonical event log: the codec\<close>

text \<open>
  \<open>binary.BigEndian\<close>: \<open>be_nat\<close> reads a byte sequence as a big-endian number,
  \<open>nat_be n k\<close> writes the low \<open>n\<close> bytes of \<open>k\<close>, most significant first.
\<close>

fun be_nat :: "bytes \<Rightarrow> nat" where
  "be_nat [] = 0"
| "be_nat (b # bs) = unat b * 256 ^ length bs + be_nat bs"

definition nat_be :: "nat \<Rightarrow> nat \<Rightarrow> bytes" where
  "nat_be n k = map (\<lambda>i. of_nat (k div 256 ^ i)) (rev [0..<n])"

text \<open>\<open>uint32(len(t.Value))\<close> is the length modulo \<open>2 ^ 32\<close>.\<close>

definition MarshalBinary :: "TLV \<Rightarrow> bytes" where
  "MarshalBinary t = Type t # nat_be 4 (length (Value t) mod 2 ^ 32) @ Value t"

text \<open>
  \<open>UnmarshalBinary\<close> slices \<open>data[1:5]\<close> and reads \<open>data[0]\<close> without a check of its
  own: on fewer than five bytes the slice expression is out of range, which is the
  outcome \<open>Panic\<close> here.
\<close>

definition UnmarshalBinary :: "bytes \<Rightarrow> error + TLV" where
  "UnmarshalBinary data =
     (if length data < 5 then Inl Panic
      else if be_nat (take 4 (drop 1 data)) \<noteq> length (drop 5 data) mod 2 ^ 32
        then Inl TLVLengthMismatch
      else Inr \<lparr>Type = data ! 0, Value = drop 5 data\<rparr>)"

text \<open>
  A \<open>bytes.Buffer\<close> is the list of its unread bytes. \<open>ReadByte\<close> on an empty buffer is
  \<open>io.EOF\<close>; \<open>Read(p)\<close> on an empty buffer is \<open>io.EOF\<close> unless \<open>p\<close> is empty, and
  otherwise copies as many bytes as it has. \<open>unmarshalFirstTLV\<close> returns the TLV and
  the buffer after it. The byte count of the last read is at most the four-byte length, so
  its conversion to \<open>uint32\<close> is exact.
\<close>

definition unmarshalFirstTLV :: "bytes \<Rightarrow> error + (TLV \<times> bytes)" where
  "unmarshalFirstTLV buf =
     (case buf of
        [] \<Rightarrow> Inl EOF
      | typeByte # buf1 \<Rightarrow>
          if buf1 = [] then Inl EOF
          else if length (take 4 buf1) \<noteq> 4 then Inl EOF
          else
            let lengthBytes = take 4 buf1;
                buf2 = drop 4 buf1;
                valueLength = be_nat lengthBytes
            in if buf2 = [] \<and> valueLength \<noteq> 0 then Inl EOF
               else if length (take valueLength buf2) \<noteq> valueLength then Inl EOF
               else
                 (case UnmarshalBinary (typeByte # lengthBytes @ take valueLength buf2) of
                    Inl err \<Rightarrow> Inl err
                  | Inr tlv \<Rightarrow> Inr (tlv, drop valueLength buf2)))"

definition createRecNumField :: "64 word \<Rightarrow> TLV" where
  "createRecNumField recNum = \<lparr>Type = recnumTypeValue, Value = nat_be 8 (unat recNum)\<rparr>"

definition unmarshalRecNum :: "TLV \<Rightarrow> error + 64 word" where
  "unmarshalRecNum tlv =
     (if Type tlv \<noteq> recnumTypeValue then Inl (NotRecnumField (Type tlv))
      else if length (Value tlv) mod 2 ^ 32 \<noteq> 8 then Inl (RecnumLength (length (Value tlv)))
      else Inr (of_nat (be_nat (take 8 (Value tlv)))))"

definition createIndexField :: "byte \<Rightarrow> byte \<Rightarrow> TLV" where
  "createIndexField indexType indexNum = \<lparr>Type = indexType, Value = [indexNum]\<rparr>"

definition unmarshalIndex :: "TLV \<Rightarrow> error + (byte \<times> byte)" where
  "unmarshalIndex tlv =
     (if Type tlv \<noteq> PCRType \<and> Type tlv \<noteq> CCMRType then Inl (NotIndexField (Type tlv))
      else if length (Value tlv) mod 2 ^ 32 \<noteq> 1 then Inl (IndexLength (length (Value tlv)))
      else case Value tlv of [] \<Rightarrow> Inl Panic | b # _ \<Rightarrow> Inr (Type tlv, b))"

text \<open>The loop of \<open>createDigestField\<close>; \<open>uint8(tpmHashAlg)\<close> truncates to a byte.\<close>

fun digest_tlvs :: "(crypto_hash \<times> bytes) list \<Rightarrow> bytes \<Rightarrow> error + bytes" where
  "digest_tlvs [] buf = Inr buf"
| "digest_tlvs ((hashAlgo, hash) # rest) buf =
     (if length hash \<noteq> hash_size hashAlgo
        then Inl (DigestLength (length hash) (hash_size hashAlgo))
      else case HashToAlgorithm hashAlgo of
        Inl err \<Rightarrow> Inl err
      | Inr tpmHashAlg \<Rightarrow>
          digest_tlvs rest (buf @ MarshalBinary \<lparr>Type = of_nat tpmHashAlg, Value = hash\<rparr>))"

definition createDigestField ::
  "(crypto_hash, bytes) iter \<Rightarrow> (crypto_hash \<rightharpoonup> bytes) \<Rightarrow> error + TLV" where
  "createDigestField it digestMap =
     (case digest_tlvs (go_range it digestMap) [] of
        Inl err \<Rightarrow> Inl err
      | Inr v \<Rightarrow> Inr \<lparr>Type = digestsTypeValue, Value = v\<rparr>)"

text \<open>Every TLV read consumes at least its five header bytes.\<close>

lemma unmarshalFirstTLV_shorter:
  "unmarshalFirstTLV buf = Inr (tlv, rest) \<Longrightarrow> length rest < length buf"
  unfolding unmarshalFirstTLV_def
  by (cases buf) (auto simp: Let_def split: if_splits sum.splits)

text \<open>The loop of \<open>unmarshalDigests\<close> over the buffer made of the TLV's value.\<close>

function unmarshalDigests_loop ::
  "bytes \<Rightarrow> (crypto_hash \<rightharpoonup> bytes) \<Rightarrow> error + (crypto_hash \<rightharpoonup> bytes)" where
  "unmarshalDigests_loop buf digestsMap =
     (if buf = [] then Inr digestsMap
      else case unmarshalFirstTLV buf of
        Inl err \<Rightarrow> if err = EOF then Inl BufferEndsUnexpectedly else Inl err
      | Inr (digestTLV, buf') \<Rightarrow>
          (case AlgorithmHash (unat (Type digestTLV)) of
             Inl err \<Rightarrow> Inl err
           | Inr hashAlg \<Rightarrow>
               unmarshalDigests_loop buf' (digestsMap(hashAlg \<mapsto> Value digestTLV))))"
  by pat_completeness auto
termination
  by (relation "measure (\<lambda>(buf, m). length buf)")
     (auto dest: unmarshalFirstTLV_shorter)

declare unmarshalDigests_loop.simps [simp del]

definition unmarshalDigests :: "TLV \<Rightarrow> error + (crypto_hash \<rightharpoonup> bytes)" where
  "unmarshalDigests tlv =
     (if Type tlv \<noteq> digestsTypeValue then Inl NotDigestsField
      else unmarshalDigests_loop (Value tlv) Map.empty)"

text \<open>
  \<open>EncodeCELR\<close> checks every field before it writes: it returns the error and the buffer
  untouched, or no error and the buffer with the four fields appended.
\<close>

definition EncodeCELR :: "(crypto_hash, bytes) iter \<Rightarrow> Record \<Rightarrow> bytes \<Rightarrow> error option \<times> bytes" where
  "EncodeCELR it r buf =
     (let recnumField = MarshalBinary (createRecNumField (RecNum r));
          indexField = MarshalBinary (createIndexField (IndexType r) (Index r))
      in case createDigestField it (Digests r) of
           Inl err \<Rightarrow> (Some err, buf)
         | Inr digests \<Rightarrow>
             (None, buf @ recnumField @ indexField @ MarshalBinary digests
                        @ MarshalBinary (Content r)))"

fun encode_records ::
  "(crypto_hash, bytes) iter \<Rightarrow> Record list \<Rightarrow> bytes \<Rightarrow> error option \<times> bytes" where
  "encode_records it [] buf = (None, buf)"
| "encode_records it (r # rs) buf =
     (case EncodeCELR it r buf of
        (Some err, buf') \<Rightarrow> (Some err, buf')
      | (None, buf') \<Rightarrow> encode_records it rs buf')"

definition EncodeCEL :: "(crypto_hash, bytes) iter \<Rightarrow> eventLog \<Rightarrow> bytes \<Rightarrow> error option \<times> bytes" where
  "EncodeCEL it c buf = encode_records it (Recs c) buf"

definition decodeToCELR :: "bytes \<Rightarrow> error + (Record \<times> bytes)" where
  "decodeToCELR buf =
     (case unmarshalFirstTLV buf of
        Inl err \<Rightarrow> Inl err
      | Inr (recnum, buf1) \<Rightarrow>
     (case unmarshalRecNum recnum of
        Inl err \<Rightarrow> Inl err
      | Inr recNum \<Rightarrow>
     (case unmarshalFirstTLV buf1 of
        Inl err \<Rightarrow> Inl err
      | Inr (regIndex, buf2) \<Rightarrow>
     (case unmarshalIndex regIndex of
        Inl err \<Rightarrow> Inl err
      | Inr (indexType, pcrNum) \<Rightarrow>
     (case unmarshalFirstTLV buf2 of
        Inl err \<Rightarrow> Inl err
      | Inr (digests, buf3) \<Rightarrow>
     (case unmarshalDigests digests of
        Inl err \<Rightarrow> Inl err
      | Inr digestsMap \<Rightarrow>
     (case unmarshalFirstTLV buf3 of
        Inl err \<Rightarrow> Inl err
      | Inr (contentTlv, buf4) \<Rightarrow>
          Inr (\<lparr>RecNum = recNum, Index = pcrNum, IndexType = indexType,
                Digests = digestsMap, Content = contentTlv\<rparr>, buf4))))))))"

lemma decodeToCELR_shorter:
  "decodeToCELR buf = Inr (r, rest) \<Longrightarrow> length rest < length buf"
  unfolding decodeToCELR_def
  by (auto split: sum.splits prod.splits dest!: unmarshalFirstTLV_shorter)

text \<open>The first loop of \<open>DecodeToCEL\<close>: records are read while the buffer is not empty.\<close>

function decode_records :: "bytes \<Rightarrow> Record list \<Rightarrow> error + Record list" where
  "decode_records buf recs =
     (if buf = [] then Inr recs
      else case decodeToCELR buf of
        Inl err \<Rightarrow> if err = EOF then Inl BufferEndsUnexpectedly else Inl err
      | Inr (celr, buf') \<Rightarrow> decode_records buf' (recs @ [celr]))"
  by pat_completeness auto
termination
  by (relation "measure (\<lambda>(buf, recs). length buf)")
     (auto dest: decodeToCELR_shorter)

declare decode_records.simps [simp del]

text \<open>The second loop of \<open>DecodeToCEL\<close>, run when there is more than one record.\<close>

fun check_types :: "byte \<Rightarrow> Record list \<Rightarrow> error option" where
  "check_types zeroMRType [] = None"
| "check_types zeroMRType (rec # recs) =
     (case supportedMRType (IndexType rec) of
        Some err \<Rightarrow> Some (BadRecord (RecNum rec) err)
      | None \<Rightarrow>
          if IndexType rec \<noteq> zeroMRType
            then Some (DifferingMRTypes (RecNum rec) (IndexType rec) zeroMRType)
          else check_types zeroMRType recs)"

definition DecodeToCEL :: "bytes \<Rightarrow> error + eventLog" where
  "DecodeToCEL buf =
     (case decode_records buf [] of
        Inl err \<Rightarrow> Inl err
      | Inr recs \<Rightarrow>
          if length recs > 1 then
            (case recs of
               [] \<Rightarrow> Inl Panic
             | rec0 # _ \<Rightarrow>
                 (case check_types (IndexType rec0) recs of
                    Some err \<Rightarrow> Inl err
                  | None \<Rightarrow> Inr \<lparr>Recs = recs, MRType = IndexType rec0\<rparr>))
          else Inr \<lparr>Recs = recs, MRType = 0\<rparr>)"

section \<open>Canonical event log: replay\<close>

text \<open>The \<open>MR\<close> and \<open>MRBank\<close> interfaces, by their methods.\<close>

record MR =
  Idx :: int
  Dgst :: bytes
  DgstAlg :: crypto_hash

record MRBank =
  CryptoHash :: "error + crypto_hash"
  MRs :: "MR list"

text \<open>
  The first loop of \<open>Replay\<close>. Reading a key that a Go map does not hold gives the nil
  slice, the empty list here.
\<close>

fun replay_records ::
  "hasher \<Rightarrow> crypto_hash \<Rightarrow> Record list \<Rightarrow> (byte \<rightharpoonup> bytes) \<Rightarrow> error + (byte \<rightharpoonup> bytes)" where
  "replay_records H cryptoHash [] replayed = Inr replayed"
| "replay_records H cryptoHash (record # rest) replayed =
     (let replayed1 =
            (if replayed (Index record) = None
               then replayed(Index record \<mapsto> replicate (hash_size cryptoHash) 0)
             else replayed)
      in case Digests record cryptoHash of
           None \<Rightarrow> Inl (NoDigestInRecord cryptoHash)
         | Some digest \<Rightarrow>
             replay_records H cryptoHash rest
               (replayed1(Index record \<mapsto>
                  H cryptoHash ((case replayed1 (Index record) of None \<Rightarrow> [] | Some a \<Rightarrow> a)
                                @ digest))))"

fun bank_registers :: "MR list \<Rightarrow> (int \<rightharpoonup> bytes) \<Rightarrow> (int \<rightharpoonup> bytes)" where
  "bank_registers [] registers = registers"
| "bank_registers (r # rs) registers = bank_registers rs (registers(Idx r \<mapsto> Dgst r))"

text \<open>The last loop of \<open>Replay\<close>, over the replayed map.\<close>

fun compare_registers ::
  "(int \<rightharpoonup> bytes) \<Rightarrow> (byte \<times> bytes) list \<Rightarrow> byte list \<Rightarrow> error + byte list" where
  "compare_registers registers [] failedReplayRegs = Inr failedReplayRegs"
| "compare_registers registers ((replayReg, replayDigest) # rest) failedReplayRegs =
     (case registers (uint replayReg) of
        None \<Rightarrow> Inl (MissingRegister replayReg)
      | Some bankDigest \<Rightarrow>
          compare_registers registers rest
            (if bankDigest \<noteq> replayDigest then failedReplayRegs @ [replayReg]
             else failedReplayRegs))"

definition Replay ::
  "(byte, bytes) iter \<Rightarrow> hasher \<Rightarrow> eventLog \<Rightarrow> MRBank \<Rightarrow> error option" where
  "Replay it H c regs =
     (case CryptoHash regs of
        Inl err \<Rightarrow> Some err
      | Inr cryptoHash \<Rightarrow>
          (case replay_records H cryptoHash (Recs c) Map.empty of
             Inl err \<Rightarrow> Some err
           | Inr replayed \<Rightarrow>
               (case compare_registers (bank_registers (MRs regs) Map.empty)
                       (go_range it replayed) [] of
                  Inl err \<Rightarrow> Some err
                | Inr failedReplayRegs \<Rightarrow>
                    if failedReplayRegs = [] then None
                    else Some (ReplayFailed cryptoHash failedReplayRegs))))"

text \<open>
  What the decoder can report on malformed bytes. \<open>tlv_truncated\<close>: the buffer ends
  before the five header bytes of a TLV, or before the value that the length field
  announces. \<open>is_parse_error\<close>: the errors that name a defect of the bytes, as opposed to
  \<open>Panic\<close> and to the raw \<open>io.EOF\<close>.
\<close>

definition tlv_truncated :: "bytes \<Rightarrow> bool" where
  "tlv_truncated buf \<longleftrightarrow>
     length buf < 5 \<or> length buf < 5 + be_nat (take 4 (drop 1 buf))"

fun is_parse_error :: "error \<Rightarrow> bool" where
  "is_parse_error BufferEndsUnexpectedly = True"
| "is_parse_error (NotRecnumField t) = True"
| "is_parse_error (RecnumLength n) = True"
| "is_parse_error (NotIndexField t) = True"
| "is_parse_error (IndexLength n) = True"
| "is_parse_error NotDigestsField = True"
| "is_parse_error (HashNotSupported a) = True"
| "is_parse_error (BadRecord n e) = True"
| "is_parse_error (DifferingMRTypes n t z) = True"
| "is_parse_error e = False"

text \<open>
  The replay contract in the spec's words: the accumulator of register \<open>i\<close> starts as
  \<open>hash_size A\<close> zero bytes and is extended with \<open>acc = H (acc \<parallel> digest)\<close> by every
  record of index \<open>i\<close>, in log order. \<open>in_bank\<close>: the bank has a register of that index;
  \<open>agrees\<close>: it has one whose digest is the accumulator.
\<close>

definition extend_from :: "hasher \<Rightarrow> crypto_hash \<Rightarrow> bytes \<Rightarrow> Record list \<Rightarrow> byte \<Rightarrow> bytes" where
  "extend_from H A acc recs i =
     foldl (\<lambda>a r. case Digests r A of None \<Rightarrow> a | Some d \<Rightarrow> H A (a @ d)) acc
       (filter (\<lambda>r. Index r = i) recs)"

definition accumulator :: "hasher \<Rightarrow> crypto_hash \<Rightarrow> Record list \<Rightarrow> byte \<Rightarrow> bytes" where
  "accumulator H A recs i = extend_from H A (replicate (hash_size A) 0) recs i"

definition in_bank :: "MRBank \<Rightarrow> byte \<Rightarrow> bool" where
  "in_bank regs i \<longleftrightarrow> (\<exists>r \<in> set (MRs regs). Idx r = uint i)"

definition agrees :: "hasher \<Rightarrow> crypto_hash \<Rightarrow> eventLog \<Rightarrow> MRBank \<Rightarrow> byte \<Rightarrow> bool" where
  "agrees H A c regs i \<longleftrightarrow>
     (\<exists>r \<in> set (MRs regs). Idx r = uint i \<and> Dgst r = accumulator H A (Recs c) i)"

section \<open>Firmware event logs: events, states and register configuration\<close>

text \<open>
  Modelled from the spec: \<open>tcg.Event\<close>, whose package is not among the sources, by the
  accessor methods the extractor calls, after the Event of the spec's data model
  (\<open>mr_index\<close>, \<open>untrusted_type\<close>, \<open>data\<close>, \<open>replayed_digest\<close>, \<open>digest_verified\<close>,
  \<open>num\<close>).
\<close>

record Event =
  MRIndex :: "32 word"
  UntrustedType :: "32 word"
  RawData :: bytes
  ReplayedDigest :: bytes
  DigestVerified :: bool
  Num :: nat

text \<open>
  Event types. The first five are the constants of \<open>wellknown/policy_constants.go\<close>.
  Modelled from the spec: \<open>EventTag\<close>, \<open>EFIBootServicesDriver\<close> and
  \<open>EFIRuntimeServicesDriver\<close>, which the spec names without a number; the numbers are
  those of the TCG PC Client profile that the constants above are taken from.
\<close>

definition Separator :: "32 word" where "Separator = 0x00000004"
definition SCRTMVersion :: "32 word" where "SCRTMVersion = 0x00000008"
definition Ipl :: "32 word" where "Ipl = 0x0000000D"
definition NonhostInfo :: "32 word" where "NonhostInfo = 0x00000011"
definition EFIBootServicesApplication :: "32 word" where
  "EFIBootServicesApplication = 0x80000003"
definition EFIAction :: "32 word" where "EFIAction = 0x80000007"
definition EventTag :: "32 word" where "EventTag = 0x00000006"
definition EFIBootServicesDriver :: "32 word" where "EFIBootServicesDriver = 0x80000004"
definition EFIRuntimeServicesDriver :: "32 word" where
  "EFIRuntimeServicesDriver = 0x80000005"

text \<open>A Go string or byte-slice literal as bytes.\<close>

definition bytes_of :: "string \<Rightarrow> bytes" where
  "bytes_of s = map (\<lambda>c. of_nat (of_char c)) s"

text \<open>
  Modelled from the spec: the two EFI action strings of package \<open>tcg\<close>, each with its
  terminating NUL (spec 4.E.3).
\<close>

definition CallingEFIApplication :: bytes where
  "CallingEFIApplication = bytes_of ''Calling EFI Application from Boot Manager'' @ [0]"

definition ExitBootServicesInvocation :: bytes where
  "ExitBootServicesInvocation = bytes_of ''Exit Boot Services Invocation'' @ [0]"

definition newGrubKernelCmdlinePrefix :: bytes where
  "newGrubKernelCmdlinePrefix = bytes_of ''kernel_cmdline: ''"

definition oldGrubKernelCmdlinePrefix :: bytes where
  "oldGrubKernelCmdlinePrefix = bytes_of ''grub_kernel_cmdline ''"

definition validPrefixes :: "bytes list" where
  "validPrefixes =
     [bytes_of ''grub_cmd: '', newGrubKernelCmdlinePrefix, bytes_of ''module_cmdline: '',
      oldGrubKernelCmdlinePrefix, bytes_of ''grub_cmd '']"

text \<open>The errors of the extractor, one constructor for each message of the source.\<close>

datatype xerror =
    SeparatorTypeSpoof "32 word" "32 word"
  | UnverifiedSeparator "32 word"
  | InvalidSeparatorData "32 word"
  | InvalidSCRTMVersion "32 word"
  | InvalidNonHostInfo "32 word"
  | CallingEFIAppNotAction "32 word" "32 word"
  | UnverifiedCallingEFIApp "32 word"
  | DuplicateCallingEFIApp "32 word"
  | CallingEFIAppAfterSeparator "32 word"
  | EFIAppBeforeCalling "32 word"
  | DuplicateSeparator "32 word"
  | ExitBootServicesNotAction "32 word" "32 word"
  | UnverifiedExitBootServices "32 word"
  | UnrecognisedEventType xerror
  | DriverDuplicateSeparator nat
  | DriverInvalidSeparatorData nat bytes
  | DriverInvalidSeparatorDigest nat xerror
  | FailedEFIImageLoad nat xerror
  | InvalidEventType "32 word"
  | InvalidPrefix "32 word" bytes
  | InvalidGrubEventNullTerminated nat xerror
  | InvalidGrubEvent nat xerror
  | NoGrubMeasurements
  | InvalidDigest bytes
  | NotNullTerminated
  | MoreThanOneKernelCmdline
  | FailedParseSecureBoot xerror
  | PreSeparatorAuthorities nat
  | NoTPMHash crypto_hash
  | External nat

text \<open>The protobuf messages of \<open>proto/state.proto\<close> that the extractor fills.\<close>

datatype LogType = LOG_TYPE_UNDEFINED | LOG_TYPE_TCG2 | LOG_TYPE_CC

datatype firmware = GceVersion "32 word" | ScrtmVersionId bytes

record PlatformState =
  Firmware :: firmware
  Technology :: nat

record EfiApp =
  Digest :: bytes

record EfiState =
  Apps :: "EfiApp list"
  BootServicesDrivers :: "EfiApp list"
  RuntimeServicesDrivers :: "EfiApp list"

record GrubFile =
  FileDigest :: bytes
  UntrustedFilename :: bytes

record GrubState =
  Files :: "GrubFile list"
  Commands :: "bytes list"

record LinuxKernelState =
  CommandLine :: bytes

datatype Certificate = WellKnown nat | Der bytes

record Database =
  Certs :: "Certificate list"
  Hashes :: "bytes list"

record SecureBootState =
  Enabled :: bool
  Db :: Database
  Dbx :: Database
  Authority :: Database
  Pk :: Database
  Kek :: Database

record pbEvent =
  PcrIndex :: "32 word"
  PbUntrustedType :: "32 word"
  PbData :: bytes
  PbDigest :: bytes
  PbDigestVerified :: bool

record FirmwareLogState =
  Platform :: "PlatformState option"
  SecureBoot :: "SecureBootState option"
  RawEvents :: "pbEvent list"
  Hash :: nat
  Grub :: "GrubState option"
  LinuxKernel :: "LinuxKernelState option"
  Efi :: "EfiState option"
  StateLogType :: LogType

datatype Bootloader = UnsupportedLoader | GRUB

record Opts =
  Loader :: Bootloader
  AllowEmptySBVar :: bool

text \<open>
  Modelled from the spec: \<open>registerConfig\<close>, whose declaration is not among the sources,
  by the fields the extractor reads. The two extracter fields are function values: what
  such a function returns is a pair of a possibly nil state and a possibly nil error.
\<close>

record registerConfig =
  Name :: string
  FirmwareDriverIdx :: "32 word"
  EFIAppIdx :: "32 word"
  ExitBootServicesIdx :: "32 word"
  PlatformExtracter :: "crypto_hash \<Rightarrow> Event list \<Rightarrow> PlatformState option \<times> xerror option"
  GRUBExtracter :: "crypto_hash \<Rightarrow> Event list \<Rightarrow> GrubState option \<times> xerror option"
  CfgLogType :: LogType

text \<open>
  The secure boot state that \<open>ParseSecurebootState\<close> returns, a certificate being its
  raw DER bytes; and the functions of the repository that are not among the sources, as
  parameters of the extractor.
\<close>

record attestSecureBootState =
  SBEnabled :: bool
  PermittedKeys :: "bytes list"
  PermittedHashes :: "bytes list"
  ForbiddenKeys :: "bytes list"
  ForbiddenHashes :: "bytes list"
  PreSeparatorAuthority :: "bytes list"
  PostSeparatorAuthority :: "bytes list"
  PlatformKeys :: "bytes list"
  PlatformKeyHashes :: "bytes list"
  ExchangeKeys :: "bytes list"
  ExchangeKeyHashes :: "bytes list"

record externals =
  UntrustedParseEventType :: "32 word \<Rightarrow> xerror + 32 word"
  DigestEquals :: "Event \<Rightarrow> bytes \<Rightarrow> xerror option"
  ParseEFIImageLoad :: "bytes \<Rightarrow> xerror option"
  ParseSecurebootState ::
    "Event list \<Rightarrow> registerConfig \<Rightarrow> Opts \<Rightarrow> xerror + attestSecureBootState"
  ConvertToPbEvents :: "crypto_hash \<Rightarrow> Event list \<Rightarrow> pbEvent list"
  WindowsProductionPCA2011Cert :: bytes
  MicrosoftUEFICA2011Cert :: bytes
  MicrosoftKEKCA2011Cert :: bytes
  GceDefaultPKCert :: bytes

section \<open>Firmware event logs: separators and platform state\<close>

fun contains :: "bytes list \<Rightarrow> bytes \<Rightarrow> bool" where
  "contains [] v = False"
| "contains (setItem # rest) v = (if v = setItem then True else contains rest v)"

record separatorInfo =
  separatorData :: "bytes list"
  separatorDigests :: "bytes list"

text \<open>
  The loop of \<open>getSeparatorInfo\<close>. One hasher serves both values and is not reset
  between them: \<open>written\<close> is what has been written to it so far, and each digest is the
  hash of all of it.
\<close>

fun separator_digests ::
  "hasher \<Rightarrow> crypto_hash \<Rightarrow> bytes list \<Rightarrow> bytes \<Rightarrow> bytes list \<Rightarrow> bytes list" where
  "separator_digests H hash [] written sepDigests = sepDigests"
| "separator_digests H hash (v # rest) written sepDigests =
     separator_digests H hash rest (written @ v) (sepDigests @ [H hash (written @ v)])"

definition getSeparatorInfo :: "hasher \<Rightarrow> crypto_hash \<Rightarrow> separatorInfo" where
  "getSeparatorInfo H hash =
     (let sepData = [[0, 0, 0, 0], [0xff, 0xff, 0xff, 0xff]]
      in \<lparr>separatorData = sepData,
          separatorDigests = separator_digests H hash sepData [] []\<rparr>)"

definition checkIfValidSeparator :: "Event \<Rightarrow> separatorInfo \<Rightarrow> xerror + bool" where
  "checkIfValidSeparator event sepInfo =
     (let evtType = UntrustedType event; index = MRIndex event
      in if evtType \<noteq> Separator \<and>
            \<not> contains (separatorDigests sepInfo) (ReplayedDigest event)
           then Inr False
         else if evtType \<noteq> Separator then Inl (SeparatorTypeSpoof index evtType)
         else if \<not> DigestVerified event then Inl (UnverifiedSeparator index)
         else if \<not> contains (separatorData sepInfo) (RawData event)
           then Inl (InvalidSeparatorData index)
         else Inr True)"

text \<open>
  Package \<open>wellknown\<close>. \<open>Atoi\<close> is \<open>strconv.Atoi\<close>: an optional sign, then one or
  more decimal digits, and a value that fits a 64-bit \<open>int\<close>; anything else is an error.
\<close>

definition GceVirtualFirmwarePrefix :: bytes where
  "GceVirtualFirmwarePrefix =
     [0x47, 0x00, 0x43, 0x00, 0x45, 0x00, 0x20, 0x00, 0x56, 0x00, 0x69, 0x00, 0x72, 0x00,
      0x74, 0x00, 0x75, 0x00, 0x61, 0x00, 0x6c, 0x00, 0x20, 0x00, 0x46, 0x00, 0x69, 0x00,
      0x72, 0x00, 0x6d, 0x00, 0x77, 0x00, 0x61, 0x00, 0x72, 0x00, 0x65, 0x00, 0x20, 0x00,
      0x76, 0x00]"

definition GCENonHostInfoSignature :: bytes where
  "GCENonHostInfoSignature = bytes_of ''GCE NonHostInfo'' @ [0]"

definition is_digit :: "byte \<Rightarrow> bool" where
  "is_digit b \<longleftrightarrow> 0x30 \<le> b \<and> b \<le> 0x39"

definition decimal :: "bytes \<Rightarrow> int" where
  "decimal ds = foldl (\<lambda>n ch. n * 10 + uint (ch - 0x30)) 0 ds"

definition Atoi :: "bytes \<Rightarrow> int option" where
  "Atoi s =
     (case s of
        [] \<Rightarrow> None
      | c # cs \<Rightarrow>
          let neg = (c = 0x2D);
              ds = (if c = 0x2D \<or> c = 0x2B then cs else s)
          in if ds = [] \<or> \<not> list_all is_digit ds then None
             else let v = (if neg then - decimal ds else decimal ds)
                  in if v < - (2 ^ 63) \<or> 2 ^ 63 - 1 < v then None else Some v)"

text \<open>The loop of \<open>ConvertSCRTMVersionToGCEFirmwareVersion\<close> over the bytes after the prefix.\<close>

fun ucs2_ascii :: "bytes \<Rightarrow> nat \<Rightarrow> bytes \<Rightarrow> bytes option" where
  "ucs2_ascii [] i asciiVersion = Some asciiVersion"
| "ucs2_ascii (b # rest) i asciiVersion =
     (if b = 0 then ucs2_ascii rest (i + 1) asciiVersion
      else if i mod 2 \<noteq> 0 then None
      else ucs2_ascii rest (i + 1) (asciiVersion @ [b]))"

definition ConvertSCRTMVersionToGCEFirmwareVersion :: "bytes \<Rightarrow> 32 word option" where
  "ConvertSCRTMVersionToGCEFirmwareVersion version =
     (let prefixLen = length GceVirtualFirmwarePrefix
      in if length version \<le> prefixLen \<or> length version mod 2 \<noteq> 0 then None
         else if take prefixLen version \<noteq> GceVirtualFirmwarePrefix then None
         else case ucs2_ascii (drop prefixLen version) 0 [] of
                None \<Rightarrow> None
              | Some asciiVersion \<Rightarrow>
                  (case Atoi asciiVersion of
                     None \<Rightarrow> None
                   | Some versionNum \<Rightarrow> Some (of_int versionNum)))"

definition ParseGCENonHostInfo :: "bytes \<Rightarrow> nat option" where
  "ParseGCENonHostInfo nonHostInfo =
     (let prefixLen = length GCENonHostInfoSignature
      in if length nonHostInfo < prefixLen + 1 then None
         else if take prefixLen nonHostInfo \<noteq> GCENonHostInfoSignature then None
         else if unat (nonHostInfo ! prefixLen) > 4 then None
         else Some (unat (nonHostInfo ! prefixLen)))"

text \<open>
  The loop of \<open>PlatformState\<close> over the events of register 0, up to the separator; it
  returns the version string and the non-host info it has seen.
\<close>

fun platform_events ::
  "separatorInfo \<Rightarrow> Event list \<Rightarrow> bytes \<Rightarrow> bytes \<Rightarrow> xerror + (bytes \<times> bytes)" where
  "platform_events sepInfo [] versionString nonHostInfo = Inr (versionString, nonHostInfo)"
| "platform_events sepInfo (event # rest) versionString nonHostInfo =
     (if MRIndex event \<noteq> 0 then platform_events sepInfo rest versionString nonHostInfo
      else case checkIfValidSeparator event sepInfo of
        Inl err \<Rightarrow> Inl err
      | Inr isSeparator \<Rightarrow>
          if isSeparator then Inr (versionString, nonHostInfo)
          else if UntrustedType event = SCRTMVersion \<and> \<not> DigestVerified event
            then Inl (InvalidSCRTMVersion (MRIndex event))
          else if UntrustedType event = NonhostInfo \<and> \<not> DigestVerified event
            then Inl (InvalidNonHostInfo (MRIndex event))
          else platform_events sepInfo rest
                 (if UntrustedType event = SCRTMVersion then RawData event else versionString)
                 (if UntrustedType event = NonhostInfo then RawData event else nonHostInfo))"

definition PlatformState_of :: "hasher \<Rightarrow> crypto_hash \<Rightarrow> Event list \<Rightarrow> xerror + PlatformState" where
  "PlatformState_of H hash events =
     (case platform_events (getSeparatorInfo H hash) events [] [] of
        Inl err \<Rightarrow> Inl err
      | Inr (versionString, nonHostInfo) \<Rightarrow>
          Inr \<lparr>Firmware =
                 (case ConvertSCRTMVersionToGCEFirmwareVersion versionString of
                    Some gceVersion \<Rightarrow> GceVersion gceVersion
                  | None \<Rightarrow> ScrtmVersionId versionString),
               Technology =
                 (case ParseGCENonHostInfo nonHostInfo of Some tech \<Rightarrow> tech | None \<Rightarrow> 0)\<rparr>)"

section \<open>Firmware event logs: EFI state\<close>

text \<open>The loop of \<open>EfiDriverState\<close> over the events of the firmware driver register.\<close>

fun driver_events ::
  "externals \<Rightarrow> registerConfig \<Rightarrow> Event list \<Rightarrow> bool \<Rightarrow> EfiApp list \<Rightarrow> EfiApp list \<Rightarrow>
   xerror + (EfiApp list \<times> EfiApp list)" where
  "driver_events ext cfg [] seenSeparator efiDriverStates efiRuntimeDriverStates =
     Inr (efiDriverStates, efiRuntimeDriverStates)"
| "driver_events ext cfg (e # rest) seenSeparator efiDriverStates efiRuntimeDriverStates =
     (if MRIndex e \<noteq> FirmwareDriverIdx cfg
        then driver_events ext cfg rest seenSeparator efiDriverStates efiRuntimeDriverStates
      else case UntrustedParseEventType ext (UntrustedType e) of
        Inl err \<Rightarrow> Inl (UnrecognisedEventType err)
      | Inr et \<Rightarrow>
          if et = Separator then
            (if seenSeparator then Inl (DriverDuplicateSeparator (Num e))
             else if RawData e \<noteq> [0, 0, 0, 0]
               then Inl (DriverInvalidSeparatorData (Num e) (RawData e))
             else case DigestEquals ext e (RawData e) of
               Some digestVerify \<Rightarrow> Inl (DriverInvalidSeparatorDigest (Num e) digestVerify)
             | None \<Rightarrow>
                 driver_events ext cfg rest True efiDriverStates efiRuntimeDriverStates)
          else if et = EFIBootServicesDriver \<and> \<not> seenSeparator then
            (case ParseEFIImageLoad ext (RawData e) of
               Some err \<Rightarrow> Inl (FailedEFIImageLoad (Num e) err)
             | None \<Rightarrow>
                 driver_events ext cfg rest seenSeparator
                   (efiDriverStates @ [\<lparr>Digest = ReplayedDigest e\<rparr>]) efiRuntimeDriverStates)
          else if et = EFIRuntimeServicesDriver \<and> \<not> seenSeparator then
            (case ParseEFIImageLoad ext (RawData e) of
               Some err \<Rightarrow> Inl (FailedEFIImageLoad (Num e) err)
             | None \<Rightarrow>
                 driver_events ext cfg rest seenSeparator efiDriverStates
                   (efiRuntimeDriverStates @ [\<lparr>Digest = ReplayedDigest e\<rparr>]))
          else driver_events ext cfg rest seenSeparator efiDriverStates efiRuntimeDriverStates)"

definition EfiDriverState :: "externals \<Rightarrow> Event list \<Rightarrow> registerConfig \<Rightarrow> xerror + EfiState" where
  "EfiDriverState ext events cfg =
     (case driver_events ext cfg events False [] [] of
        Inl err \<Rightarrow> Inl err
      | Inr (efiDriverStates, efiRuntimeDriverStates) \<Rightarrow>
          Inr \<lparr>Apps = [], BootServicesDrivers = efiDriverStates,
               RuntimeServicesDrivers = efiRuntimeDriverStates\<rparr>)"

text \<open>The local variables of the loop of \<open>EfiState\<close>.\<close>

record efi_walk =
  efiAppStates :: "EfiApp list"
  seenSeparator4 :: bool
  seenSeparator5 :: bool
  seenCallingEfiApp :: bool
  seenExitBootServices :: bool

text \<open>The part of the loop body for an event on the EFI application register.\<close>

definition efi_app_event ::
  "registerConfig \<Rightarrow> separatorInfo \<Rightarrow> bytes \<Rightarrow> Event \<Rightarrow> efi_walk \<Rightarrow> xerror + efi_walk" where
  "efi_app_event cfg sepInfo callingEFIAppDigest event w =
     (let index = MRIndex event; evtType = UntrustedType event;
          isCalling = (callingEFIAppDigest = ReplayedDigest event)
      in if isCalling \<and> evtType \<noteq> EFIAction then Inl (CallingEFIAppNotAction index evtType)
         else if isCalling \<and> \<not> DigestVerified event then Inl (UnverifiedCallingEFIApp index)
         else if isCalling \<and> seenCallingEfiApp w then Inl (DuplicateCallingEFIApp index)
         else if isCalling \<and> seenSeparator4 w then Inl (CallingEFIAppAfterSeparator index)
         else
           let w1 = (if isCalling then w\<lparr>seenCallingEfiApp := True\<rparr> else w)
           in if evtType = EFIBootServicesApplication \<and> \<not> seenCallingEfiApp w1
                then Inl (EFIAppBeforeCalling index)
              else
                let w2 = (if evtType = EFIBootServicesApplication
                          then w1\<lparr>efiAppStates :=
                                   efiAppStates w1 @ [\<lparr>Digest = ReplayedDigest event\<rparr>]\<rparr>
                          else w1)
                in case checkIfValidSeparator event sepInfo of
                     Inl err \<Rightarrow> Inl err
                   | Inr isSeparator \<Rightarrow>
                       if isSeparator \<and> seenSeparator4 w2
                         then Inl (DuplicateSeparator (EFIAppIdx cfg))
                       else Inr (if isSeparator then w2\<lparr>seenSeparator4 := True\<rparr> else w2))"

text \<open>
  The part of the loop body for an event on the ExitBootServices register; the flag
  \<open>seenExitBootServices\<close> of the result tells that the loop was left by \<open>break\<close>.
\<close>

definition efi_exit_event ::
  "registerConfig \<Rightarrow> separatorInfo \<Rightarrow> bytes \<Rightarrow> Event \<Rightarrow> efi_walk \<Rightarrow> xerror + efi_walk" where
  "efi_exit_event cfg sepInfo exitBootSvcDigest event w =
     (let index = MRIndex event; evtType = UntrustedType event
      in if exitBootSvcDigest = ReplayedDigest event then
           (if evtType \<noteq> EFIAction then Inl (ExitBootServicesNotAction index evtType)
            else if \<not> DigestVerified event then Inl (UnverifiedExitBootServices index)
            else Inr (w\<lparr>seenExitBootServices := True\<rparr>))
         else case checkIfValidSeparator event sepInfo of
           Inl err \<Rightarrow> Inl err
         | Inr isSeparator \<Rightarrow>
             if isSeparator \<and> seenSeparator5 w
               then Inl (DuplicateSeparator (ExitBootServicesIdx cfg))
             else Inr (if isSeparator then w\<lparr>seenSeparator5 := True\<rparr> else w))"

fun efi_events ::
  "registerConfig \<Rightarrow> separatorInfo \<Rightarrow> bytes \<Rightarrow> bytes \<Rightarrow> Event list \<Rightarrow> efi_walk \<Rightarrow>
   xerror + efi_walk" where
  "efi_events cfg sepInfo callingEFIAppDigest exitBootSvcDigest [] w = Inr w"
| "efi_events cfg sepInfo callingEFIAppDigest exitBootSvcDigest (event # rest) w =
     (if MRIndex event \<noteq> EFIAppIdx cfg \<and> MRIndex event \<noteq> ExitBootServicesIdx cfg
        then efi_events cfg sepInfo callingEFIAppDigest exitBootSvcDigest rest w
      else
        case (if MRIndex event = EFIAppIdx cfg
              then efi_app_event cfg sepInfo callingEFIAppDigest event w else Inr w) of
          Inl err \<Rightarrow> Inl err
        | Inr w1 \<Rightarrow>
            (case (if MRIndex event = ExitBootServicesIdx cfg
                   then efi_exit_event cfg sepInfo exitBootSvcDigest event w1 else Inr w1) of
               Inl err \<Rightarrow> Inl err
             | Inr w2 \<Rightarrow>
                 if seenExitBootServices w2 then Inr w2
                 else efi_events cfg sepInfo callingEFIAppDigest exitBootSvcDigest rest w2))"

definition EfiState_of ::
  "externals \<Rightarrow> hasher \<Rightarrow> crypto_hash \<Rightarrow> Event list \<Rightarrow> registerConfig \<Rightarrow>
   xerror + EfiState option" where
  "EfiState_of ext H hash events cfg =
     (let sepInfo = getSeparatorInfo H hash;
          callingEFIAppDigest = H hash CallingEFIApplication;
          exitBootSvcDigest = H hash ExitBootServicesInvocation
      in case efi_events cfg sepInfo callingEFIAppDigest exitBootSvcDigest events
                \<lparr>efiAppStates = [], seenSeparator4 = False, seenSeparator5 = False,
                 seenCallingEfiApp = False, seenExitBootServices = False\<rparr> of
           Inl err \<Rightarrow> Inl err
         | Inr w \<Rightarrow>
             if seenExitBootServices w then
               (case EfiDriverState ext events cfg of
                  Inl err \<Rightarrow> Inl err
                | Inr efiDriver \<Rightarrow>
                    Inr (Some \<lparr>Apps = efiAppStates w,
                               BootServicesDrivers = BootServicesDrivers efiDriver,
                               RuntimeServicesDrivers = RuntimeServicesDrivers efiDriver\<rparr>))
             else Inr None)"

section \<open>Firmware event logs: GRUB and the kernel command line\<close>

text \<open>
  Modelled from the spec: \<open>verifyDataDigest\<close> and \<open>verifyNullTerminatedDataDigest\<close>,
  which are called by the GRUB extracters and are not among the sources. The digest must
  be the hash of the data; for data that ends in a NUL byte it may also be the hash of
  the data without that byte; data that is empty or does not end in NUL is refused by the
  second function (spec 4.D and the test \<open>TestNullTerminatedDataDigest\<close>).
\<close>

definition verifyDataDigest :: "hasher \<Rightarrow> crypto_hash \<Rightarrow> bytes \<Rightarrow> bytes \<Rightarrow> xerror option" where
  "verifyDataDigest H hash data digest =
     (if digest \<noteq> H hash data then Some (InvalidDigest digest) else None)"

definition verifyNullTerminatedDataDigest ::
  "hasher \<Rightarrow> crypto_hash \<Rightarrow> bytes \<Rightarrow> bytes \<Rightarrow> xerror option" where
  "verifyNullTerminatedDataDigest H hash data digest =
     (if data = [] \<or> last data \<noteq> 0 then Some NotNullTerminated
      else case verifyDataDigest H hash data digest of
        None \<Rightarrow> None
      | Some err \<Rightarrow> verifyDataDigest H hash (butlast data) digest)"

text \<open>
  The search for a prefix: \<open>suffixAt\<close> is the length of the first valid prefix that the
  data starts with, \<open>None\<close> standing for -1.
\<close>

definition HasPrefix :: "bytes \<Rightarrow> bytes \<Rightarrow> bool" where
  "HasPrefix s pre \<longleftrightarrow> length pre \<le> length s \<and> take (length pre) s = pre"

fun find_prefix :: "bytes list \<Rightarrow> bytes \<Rightarrow> nat option" where
  "find_prefix [] rawData = None"
| "find_prefix (pre # rest) rawData =
     (if HasPrefix rawData pre then Some (length pre) else find_prefix rest rawData)"

text \<open>The digest check that both GRUB extracters make on a command event.\<close>

definition verify_grub_command ::
  "hasher \<Rightarrow> crypto_hash \<Rightarrow> nat \<Rightarrow> nat \<Rightarrow> Event \<Rightarrow> xerror option" where
  "verify_grub_command H hash eventNum suffixAt event =
     (let rawData = RawData event
      in if length (drop suffixAt rawData) > 0 \<and> last rawData = 0 then
           (case verifyNullTerminatedDataDigest H hash (drop suffixAt rawData)
                   (ReplayedDigest event) of
              Some err \<Rightarrow> Some (InvalidGrubEventNullTerminated eventNum err)
            | None \<Rightarrow> None)
         else
           (case verifyDataDigest H hash (drop suffixAt rawData) (ReplayedDigest event) of
              Some err \<Rightarrow> Some (InvalidGrubEvent eventNum err)
            | None \<Rightarrow> None))"

text \<open>The loop of \<open>GrubStateFromTPMLog\<close>, \<open>eventNum\<close> being the position in the list.\<close>

fun tpm_grub_events ::
  "hasher \<Rightarrow> crypto_hash \<Rightarrow> Event list \<Rightarrow> nat \<Rightarrow> GrubFile list \<Rightarrow> bytes list \<Rightarrow>
   xerror + (GrubFile list \<times> bytes list)" where
  "tpm_grub_events H hash [] eventNum files commands = Inr (files, commands)"
| "tpm_grub_events H hash (event # rest) eventNum files commands =
     (if MRIndex event \<noteq> 8 \<and> MRIndex event \<noteq> 9
        then tpm_grub_events H hash rest (eventNum + 1) files commands
      else if UntrustedType event = EventTag
        then tpm_grub_events H hash rest (eventNum + 1) files commands
      else if UntrustedType event \<noteq> Ipl then Inl (InvalidEventType (MRIndex event))
      else if MRIndex event = 9
        then tpm_grub_events H hash rest (eventNum + 1)
               (files @ [\<lparr>FileDigest = ReplayedDigest event,
                           UntrustedFilename = RawData event\<rparr>]) commands
      else case find_prefix validPrefixes (RawData event) of
        None \<Rightarrow> Inl (InvalidPrefix (MRIndex event) (RawData event))
      | Some suffixAt \<Rightarrow>
          (case verify_grub_command H hash eventNum suffixAt event of
             Some err \<Rightarrow> Inl err
           | None \<Rightarrow>
               tpm_grub_events H hash rest (eventNum + 1) files
                 (commands @ [RawData event])))"

definition GrubStateFromTPMLog :: "hasher \<Rightarrow> crypto_hash \<Rightarrow> Event list \<Rightarrow> xerror + GrubState" where
  "GrubStateFromTPMLog H hash events =
     (case tpm_grub_events H hash events 0 [] [] of
        Inl err \<Rightarrow> Inl err
      | Inr (files, commands) \<Rightarrow>
          if files = [] \<and> commands = [] then Inl NoGrubMeasurements
          else Inr \<lparr>Files = files, Commands = commands\<rparr>)"

text \<open>The loop of \<open>GrubStateFromRTMRLog\<close>.\<close>

fun rtmr_grub_events ::
  "hasher \<Rightarrow> crypto_hash \<Rightarrow> Event list \<Rightarrow> nat \<Rightarrow> bytes list \<Rightarrow> xerror + bytes list" where
  "rtmr_grub_events H hash [] eventNum commands = Inr commands"
| "rtmr_grub_events H hash (event # rest) eventNum commands =
     (if MRIndex event \<noteq> 3 then rtmr_grub_events H hash rest (eventNum + 1) commands
      else if UntrustedType event = EventTag
        then rtmr_grub_events H hash rest (eventNum + 1) commands
      else if UntrustedType event \<noteq> Ipl then Inl (InvalidEventType (MRIndex event))
      else case find_prefix validPrefixes (RawData event) of
        None \<Rightarrow> rtmr_grub_events H hash rest (eventNum + 1) commands
      | Some suffixAt \<Rightarrow>
          (case verify_grub_command H hash eventNum suffixAt event of
             Some err \<Rightarrow> Inl err
           | None \<Rightarrow>
               rtmr_grub_events H hash rest (eventNum + 1) (commands @ [RawData event])))"

definition GrubStateFromRTMRLog :: "hasher \<Rightarrow> crypto_hash \<Rightarrow> Event list \<Rightarrow> xerror + GrubState" where
  "GrubStateFromRTMRLog H hash events =
     (case rtmr_grub_events H hash events 0 [] of
        Inl err \<Rightarrow> Inl err
      | Inr commands \<Rightarrow>
          if commands = [] then Inl NoGrubMeasurements
          else Inr \<lparr>Files = [], Commands = commands\<rparr>)"

definition getGrubKernelCmdlineSuffix :: "bytes \<Rightarrow> nat option" where
  "getGrubKernelCmdlineSuffix grubCmd =
     find_prefix [oldGrubKernelCmdlinePrefix, newGrubKernelCmdlinePrefix] grubCmd"

fun kernel_commands :: "bytes list \<Rightarrow> bytes \<Rightarrow> bool \<Rightarrow> xerror + bytes" where
  "kernel_commands [] cmdline seen = Inr cmdline"
| "kernel_commands (command # rest) cmdline seen =
     (case getGrubKernelCmdlineSuffix command of
        None \<Rightarrow> kernel_commands rest cmdline seen
      | Some suffixAt \<Rightarrow>
          if seen then Inl MoreThanOneKernelCmdline
          else kernel_commands rest (drop suffixAt command) True)"

text \<open>\<open>grub.GetCommands()\<close> of a nil state is the empty list.\<close>

definition LinuxKernelStateFromGRUB :: "GrubState option \<Rightarrow> xerror + LinuxKernelState" where
  "LinuxKernelStateFromGRUB grub =
     (case kernel_commands (case grub of None \<Rightarrow> [] | Some g \<Rightarrow> Commands g) [] False of
        Inl err \<Rightarrow> Inl err
      | Inr cmdline \<Rightarrow> Inr \<lparr>CommandLine = cmdline\<rparr>)"

section \<open>Firmware event logs: secure boot and the whole state\<close>

definition matchWellKnown :: "externals \<Rightarrow> bytes \<Rightarrow> nat option" where
  "matchWellKnown ext cert =
     (if WindowsProductionPCA2011Cert ext = cert then Some 1
      else if MicrosoftUEFICA2011Cert ext = cert then Some 2
      else if MicrosoftKEKCA2011Cert ext = cert then Some 3
      else if GceDefaultPKCert ext = cert then Some 4
      else None)"

definition convertToPbDatabase :: "externals \<Rightarrow> bytes list \<Rightarrow> bytes list \<Rightarrow> Database" where
  "convertToPbDatabase ext certs hashes =
     \<lparr>Certs = map (\<lambda>cert. case matchWellKnown ext cert of
                             Some wkEnum \<Rightarrow> WellKnown wkEnum
                           | None \<Rightarrow> Der cert) certs,
      Hashes = hashes\<rparr>"

definition SecureBootState_of ::
  "externals \<Rightarrow> Event list \<Rightarrow> registerConfig \<Rightarrow> Opts \<Rightarrow> xerror + SecureBootState" where
  "SecureBootState_of ext replayEvents cfg opts =
     (case ParseSecurebootState ext replayEvents cfg opts of
        Inl err \<Rightarrow> Inl (FailedParseSecureBoot err)
      | Inr a \<Rightarrow>
          if length (PreSeparatorAuthority a) \<noteq> 0
            then Inl (PreSeparatorAuthorities (length (PreSeparatorAuthority a)))
          else Inr \<lparr>Enabled = SBEnabled a,
                    Db = convertToPbDatabase ext (PermittedKeys a) (PermittedHashes a),
                    Dbx = convertToPbDatabase ext (ForbiddenKeys a) (ForbiddenHashes a),
                    Authority = convertToPbDatabase ext (PostSeparatorAuthority a) [],
                    Pk = convertToPbDatabase ext (PlatformKeys a) (PlatformKeyHashes a),
                    Kek = convertToPbDatabase ext (ExchangeKeys a) (ExchangeKeyHashes a)\<rparr>)"

text \<open>
  A Go result \<open>(state, err)\<close> of one of the functions above: the state is nil when there
  is an error. \<open>errors.Join\<close> collects the errors that are not nil, in order: the joined
  error is the list of them, and nil is the empty list.
\<close>

definition go_result :: "xerror + 'a \<Rightarrow> 'a option \<times> xerror option" where
  "go_result r = (case r of Inl err \<Rightarrow> (None, Some err) | Inr v \<Rightarrow> (Some v, None))"

definition Join :: "xerror list \<Rightarrow> xerror option \<Rightarrow> xerror list" where
  "Join joined err = (case err of None \<Rightarrow> joined | Some e \<Rightarrow> joined @ [e])"

definition HashToAlgorithmX :: "crypto_hash \<Rightarrow> xerror + nat" where
  "HashToAlgorithmX hash =
     (case HashToAlgorithm hash of Inl err \<Rightarrow> Inl (NoTPMHash hash) | Inr a \<Rightarrow> Inr a)"

definition FirmwareLogState_of ::
  "externals \<Rightarrow> hasher \<Rightarrow> Event list \<Rightarrow> crypto_hash \<Rightarrow> registerConfig \<Rightarrow> Opts \<Rightarrow>
   FirmwareLogState option \<times> xerror list" where
  "FirmwareLogState_of ext H events hash cfg opts =
     (case HashToAlgorithmX hash of
        Inl err \<Rightarrow> (None, [err])
      | Inr tcgHash \<Rightarrow>
          let (platform, err1) = PlatformExtracter cfg hash events;
              joined1 = Join [] err1;
              (sbState, err2) = go_result (SecureBootState_of ext events cfg opts);
              joined2 = Join joined1 err2;
              (efiState, err3) = go_result (EfiState_of ext H hash events cfg);
              joined3 = Join joined2 err3;
              (grub, err4) =
                (if Loader opts = GRUB then GRUBExtracter cfg hash events else (None, None));
              joined4 = Join joined3 err4;
              (kernel, err5) =
                (if Loader opts = GRUB then go_result (LinuxKernelStateFromGRUB grub)
                 else (None, None));
              joined5 = Join joined4 err5
          in (Some \<lparr>Platform = platform,
                     SecureBoot = sbState,
                     RawEvents = ConvertToPbEvents ext hash events,
                     Hash = tcgHash,
                     Grub = grub,
                     LinuxKernel = kernel,
                     Efi = (case efiState of None \<Rightarrow> None | Some e \<Rightarrow> e),
                     StateLogType = CfgLogType cfg\<rparr>,
              joined5))"

text \<open>
  What the GRUB claims speak of: the payload begins with one of the recognized prefixes,
  and the part of the payload after the first recognized prefix that it begins with.
\<close>

definition command_suffix :: "bytes \<Rightarrow> bytes" where
  "command_suffix rawData =
     (case find_prefix validPrefixes rawData of None \<Rightarrow> rawData | Some n \<Rightarrow> drop n rawData)"

definition has_valid_prefix :: "bytes \<Rightarrow> bool" where
  "has_valid_prefix rawData \<longleftrightarrow> (\<exists>p \<in> set validPrefixes. HasPrefix rawData p)"

section \<open>Sample values\<close>

text \<open>
  Concrete inputs on which the theorems below are exercised: a map iteration in the
  declaration order of the hash algorithms, an event content with fixed digests, an
  extender that logs its calls, and one that fails on SHA-256.
\<close>

definition hash_order :: "(crypto_hash, bytes) iter" where
  "hash_order m =
     [MD4, MD5, SHA1, SHA224, SHA256, SHA384, SHA512, MD5SHA1, RIPEMD160, SHA3_224,
      SHA3_256, SHA3_384, SHA3_512, SHA512_224, SHA512_256, BLAKE2s_256, BLAKE2b_256,
      BLAKE2b_384, BLAKE2b_512]"

definition sample_content :: content where
  "sample_content =
     \<lparr>GenerateDigest = (\<lambda>h. Inr (replicate (hash_size h) 7)),
      GetTLV = Inr \<lparr>Type = 222, Value = [0, 0, 0, 0, 0]\<rparr>\<rparr>"

definition logging_extender :: "(crypto_hash \<times> int \<times> bytes) list MRExtender" where
  "logging_extender bank mrIndex dgst calls = (None, calls @ [(bank, mrIndex, dgst)])"

definition failing_extender :: "(crypto_hash \<times> int \<times> bytes) list MRExtender" where
  "failing_extender bank mrIndex dgst calls =
     (if bank = SHA256 then (Some (Other 1), calls)
      else (None, calls @ [(bank, mrIndex, dgst)]))"

definition empty_pcr_log :: eventLog where
  "empty_pcr_log = \<lparr>Recs = [], MRType = PCRType\<rparr>"

text \<open>
  A stand-in hash function (length, byte sum and digest size of the algorithm), a log
  over the registers 7 and 8 and banks to replay it against.
\<close>

definition toy_hash :: hasher where
  "toy_hash h xs = [of_nat (length xs), sum_list xs, of_nat (hash_size h)]"

definition register_order :: "(byte, bytes) iter" where
  "register_order m = [8, 7]"

definition sample_record :: "64 word \<Rightarrow> byte \<Rightarrow> bytes \<Rightarrow> Record" where
  "sample_record n i d =
     \<lparr>RecNum = n, Index = i, IndexType = PCRType, Digests = [SHA1 \<mapsto> d],
      Content = \<lparr>Type = 222, Value = []\<rparr>\<rparr>"

definition sample_log :: eventLog where
  "sample_log =
     \<lparr>Recs = [sample_record 0 7 [1, 2], sample_record 1 8 [9], sample_record 2 7 [5]],
      MRType = PCRType\<rparr>"

definition matching_bank :: MRBank where
  "matching_bank =
     \<lparr>CryptoHash = Inr SHA1,
      MRs = [\<lparr>Idx = 7, Dgst = [4, 50, 20], DgstAlg = SHA1\<rparr>,
             \<lparr>Idx = 8, Dgst = [21, 9, 20], DgstAlg = SHA1\<rparr>,
             \<lparr>Idx = 9, Dgst = [0, 0, 0], DgstAlg = SHA1\<rparr>]\<rparr>"

definition short_wrong_bank :: MRBank where
  "short_wrong_bank =
     \<lparr>CryptoHash = Inr SHA1, MRs = [\<lparr>Idx = 7, Dgst = [0, 0, 0], DgstAlg = SHA1\<rparr>]\<rparr>"

text \<open>Logs for the codec: records with SHA-1 and SHA-256 digests of the right sizes.\<close>

definition cel_record :: "64 word \<Rightarrow> byte \<Rightarrow> Record" where
  "cel_record n i =
     \<lparr>RecNum = n, Index = i, IndexType = PCRType,
      Digests = [SHA1 \<mapsto> replicate 20 7, SHA256 \<mapsto> replicate 32 9],
      Content = \<lparr>Type = 222, Value = [0, 0, 0, 0, 0]\<rparr>\<rparr>"

definition two_record_log :: eventLog where
  "two_record_log = \<lparr>Recs = [cel_record 0 16, cel_record 1 23], MRType = PCRType\<rparr>"

definition one_record_log :: eventLog where
  "one_record_log = \<lparr>Recs = [cel_record 0 16], MRType = PCRType\<rparr>"

definition md5_log :: eventLog where
  "md5_log =
     \<lparr>Recs = [\<lparr>RecNum = 0, Index = 16, IndexType = PCRType,
                Digests = [MD5 \<mapsto> replicate 16 7],
                Content = \<lparr>Type = 222, Value = []\<rparr>\<rparr>],
      MRType = PCRType\<rparr>"

text \<open>
  Events for the GRUB extracters: a command with a recognized prefix and a file path
  without one.
\<close>

definition grub_event :: "32 word \<Rightarrow> 32 word \<Rightarrow> bytes \<Rightarrow> bytes \<Rightarrow> Event" where
  "grub_event idx ty data dig =
     \<lparr>MRIndex = idx, UntrustedType = ty, RawData = data, ReplayedDigest = dig,
      DigestVerified = True, Num = 0\<rparr>"

definition ls_command :: bytes where
  "ls_command = bytes_of ''grub_cmd: ls''"

definition file_path :: bytes where
  "file_path = bytes_of ''(hd0)/x''"

text \<open>
  Events and parameters for the extractor. \<open>spoofed_separator\<close> carries the digest of
  the separator payload FFFFFFFF under a type that is not \<open>EV_SEPARATOR\<close>. The functions
  of \<open>sample_externals\<close> accept everything. Modelled from the spec: \<open>TPMRegisterConfig\<close>,
  whose declaration is not among the sources, with the register indices of the table of
  spec 4.E (drivers PCR 2, applications PCR 4, ExitBootServices PCR 5), the TCG2 log
  type and the two TPM extracters.
\<close>

definition spoofed_separator :: "hasher \<Rightarrow> crypto_hash \<Rightarrow> Event" where
  "spoofed_separator H hash =
     \<lparr>MRIndex = 0, UntrustedType = EFIAction, RawData = [0xff, 0xff, 0xff, 0xff],
      ReplayedDigest = H hash [0xff, 0xff, 0xff, 0xff], DigestVerified = True, Num = 0\<rparr>"

definition sample_externals :: externals where
  "sample_externals =
     \<lparr>UntrustedParseEventType = (\<lambda>t. Inr t),
      DigestEquals = (\<lambda>e d. None),
      ParseEFIImageLoad = (\<lambda>d. None),
      ParseSecurebootState =
        (\<lambda>events cfg opts.
           Inr \<lparr>SBEnabled = False, PermittedKeys = [], PermittedHashes = [],
                 ForbiddenKeys = [], ForbiddenHashes = [], PreSeparatorAuthority = [],
                 PostSeparatorAuthority = [], PlatformKeys = [], PlatformKeyHashes = [],
                 ExchangeKeys = [], ExchangeKeyHashes = []\<rparr>),
      ConvertToPbEvents =
        (\<lambda>hash events.
           map (\<lambda>e. \<lparr>PcrIndex = MRIndex e, PbUntrustedType = UntrustedType e,
                        PbData = RawData e, PbDigest = ReplayedDigest e,
                        PbDigestVerified = DigestVerified e\<rparr>) events),
      WindowsProductionPCA2011Cert = [1],
      MicrosoftUEFICA2011Cert = [2],
      MicrosoftKEKCA2011Cert = [3],
      GceDefaultPKCert = [4]\<rparr>"

definition TPMRegisterConfig :: "hasher \<Rightarrow> registerConfig" where
  "TPMRegisterConfig H =
     \<lparr>Name = ''PCR'',
      FirmwareDriverIdx = 2,
      EFIAppIdx = 4,
      ExitBootServicesIdx = 5,
      PlatformExtracter = (\<lambda>hash events. go_result (PlatformState_of H hash events)),
      GRUBExtracter = (\<lambda>hash events. go_result (GrubStateFromTPMLog H hash events)),
      CfgLogType = LOG_TYPE_TCG2\<rparr>"

definition efi_application_event :: Event where
  "efi_application_event =
     \<lparr>MRIndex = 4, UntrustedType = EFIBootServicesApplication, RawData = [],
      ReplayedDigest = [], DigestVerified = True, Num = 0\<rparr>"

definition efi_action_event :: "32 word \<Rightarrow> bytes \<Rightarrow> Event" where
  "efi_action_event idx action =
     \<lparr>MRIndex = idx, UntrustedType = EFIAction, RawData = action,
      ReplayedDigest = toy_hash SHA256 action, DigestVerified = True, Num = 0\<rparr>"

definition booted_application :: Event where
  "booted_application =
     \<lparr>MRIndex = 4, UntrustedType = EFIBootServicesApplication, RawData = [],
      ReplayedDigest = [9], DigestVerified = True, Num = 0\<rparr>"

definition grub_opts :: Opts where
  "grub_opts = \<lparr>Loader = GRUB, AllowEmptySBVar = False\<rparr>"

section \<open>Appending to a canonical event log\<close>

text \<open>
  C10: \<open>AppendEvent\<close> is atomic on the log. Whenever it returns an error, the log it
  leaves is the log it was given; and whenever the log has changed, the digest map was
  generated and every extender call over it succeeded. The registers extended before a
  failing call are not rolled back: the register state is returned as the extender left it.
\<close>

theorem AppendEvent_atomic:
  "(fst (AppendEvent it c event bankAlgos mrIndex extender s) \<noteq> None \<longrightarrow>
      fst (snd (AppendEvent it c event bankAlgos mrIndex extender s)) = c) \<and>
   (fst (snd (AppendEvent it c event bankAlgos mrIndex extender s)) \<noteq> c \<longrightarrow>
      (\<exists>digestMap. generateDigestMap bankAlgos event Map.empty = Inr digestMap \<and>
         fst (extend_all extender mrIndex (go_range it digestMap) s) = None))"
  unfolding AppendEvent_def
  by (auto split: option.splits sum.splits prod.splits)

theorem AppendEvent_atomic_witness:
  "fst (AppendEvent hash_order empty_pcr_log sample_content [SHA1, SHA256] 7
          failing_extender []) \<noteq> None \<and>
   fst (snd (AppendEvent hash_order empty_pcr_log sample_content [SHA1, SHA256] 7
          failing_extender [])) = empty_pcr_log \<and>
   snd (snd (AppendEvent hash_order empty_pcr_log sample_content [SHA1, SHA256] 7
          failing_extender [])) \<noteq> [] \<and>
   fst (snd (AppendEvent hash_order empty_pcr_log sample_content [SHA1] 7
          logging_extender [])) \<noteq> empty_pcr_log \<and>
   (\<exists>digestMap. generateDigestMap [SHA1] sample_content Map.empty = Inr digestMap \<and>
      fst (extend_all logging_extender 7 (go_range hash_order digestMap) []) = None)"
  using AppendEvent_atomic [of hash_order empty_pcr_log sample_content "[SHA1, SHA256]" 7
          failing_extender "[]"]
        AppendEvent_atomic [of hash_order empty_pcr_log sample_content "[SHA1]" 7
          logging_extender "[]"]
  by (simp add: AppendEvent_def supportedMRType_def PCRType_def CCMRType_def
        empty_pcr_log_def sample_content_def go_range_def hash_order_def
        List.map_filter_def failing_extender_def logging_extender_def)

text \<open>
  C8: the record that \<open>AppendEvent\<close> appends carries \<open>uint8(mrIndex)\<close>. At the index
  256, accepted because it is not negative, the extender is called with 256 and the
  appended record names register 0.
\<close>

theorem AppendEvent_index_256:
  "AppendEvent hash_order empty_pcr_log sample_content [SHA1] 256 logging_extender [] =
     (None,
      \<lparr>Recs = [\<lparr>RecNum = 0, Index = 0, IndexType = PCRType,
                 Digests = [SHA1 \<mapsto> replicate 20 7],
                 Content = \<lparr>Type = 222, Value = [0, 0, 0, 0, 0]\<rparr>\<rparr>],
       MRType = PCRType\<rparr>,
      [(SHA1, 256, replicate 20 7)])"
  by (simp add: AppendEvent_def supportedMRType_def PCRType_def CCMRType_def
        empty_pcr_log_def sample_content_def go_range_def hash_order_def
        List.map_filter_def logging_extender_def)

text \<open>
  Between 0 and 255 the conversion keeps the index: a successful call appends one record
  with the next record number, the given index, the type of the log and the digest map,
  whose keys are the algorithms asked for.
\<close>

lemma generateDigestMap_Inr:
  "generateDigestMap hashAlgos event m = Inr digestMap \<Longrightarrow>
     dom digestMap = dom m \<union> set hashAlgos \<and>
     (\<forall>h \<in> set hashAlgos. GenerateDigest event h = Inr (the (digestMap h))) \<and>
     (\<forall>h. h \<notin> set hashAlgos \<longrightarrow> digestMap h = m h)"
proof (induction hashAlgos arbitrary: m)
  case Nil
  then show ?case by simp
next
  case (Cons hashAlgo hashAlgos)
  from Cons.prems obtain digest where d: "GenerateDigest event hashAlgo = Inr digest"
    and r: "generateDigestMap hashAlgos event (m(hashAlgo \<mapsto> digest)) = Inr digestMap"
    by (auto split: sum.splits)
  note ih = Cons.IH [OF r]
  have "digestMap hashAlgo = Some digest"
  proof (cases "hashAlgo \<in> set hashAlgos")
    case True
    with ih d have "digest = the (digestMap hashAlgo)" by auto
    moreover from True ih have "hashAlgo \<in> dom digestMap" by blast
    ultimately show ?thesis by auto
  next
    case False
    with ih show ?thesis by simp
  qed
  with ih d show ?case by auto
qed

lemma AppendEvent_appends:
  assumes "MRType c = PCRType \<or> MRType c = CCMRType"
    and "bankAlgos \<noteq> []" and "0 \<le> mrIndex" and "mrIndex < 256"
    and "generateDigestMap bankAlgos event Map.empty = Inr digestMap"
    and "extend_all extender mrIndex (go_range it digestMap) s = (None, s')"
    and "GetTLV event = Inr eventTlv"
  shows "\<exists>r. AppendEvent it c event bankAlgos mrIndex extender s =
             (None, c\<lparr>Recs := Recs c @ [r]\<rparr>, s') \<and>
           RecNum r = of_nat (length (Recs c)) \<and> uint (Index r) = mrIndex \<and>
           IndexType r = MRType c \<and> Digests r = digestMap \<and> Content r = eventTlv \<and>
           dom digestMap = set bankAlgos"
proof -
  have "uint (of_int mrIndex :: byte) = mrIndex"
    using assms(3,4) by (simp add: uint_word_of_int)
  moreover have "dom digestMap = set bankAlgos"
    using generateDigestMap_Inr [OF assms(5)] by simp
  ultimately show ?thesis
    using assms by (auto simp: AppendEvent_def supportedMRType_def)
qed

section \<open>Replaying a canonical event log\<close>

lemma map_filter_mem:
  "y \<in> set (List.map_filter f xs) \<longleftrightarrow> (\<exists>x \<in> set xs. f x = Some y)"
  by (induction xs) (auto split: option.splits)

lemma go_range_mem:
  "(k, v) \<in> set (go_range it m) \<longleftrightarrow> k \<in> set (it m) \<and> m k = Some v"
  by (auto simp: go_range_def map_filter_mem)

lemma map_filter_keys:
  "map fst (List.map_filter (\<lambda>k. map_option (Pair k) (m k)) ks) = filter (\<lambda>k. m k \<noteq> None) ks"
  by (induction ks) (auto split: option.splits)

lemma go_range_keys: "map fst (go_range it m) = filter (\<lambda>k. m k \<noteq> None) (it m)"
  by (simp add: go_range_def map_filter_keys)

lemma compare_registers_ok:
  "\<forall>(k, v) \<in> set es. registers (uint k) \<noteq> None \<Longrightarrow>
   compare_registers registers es failed =
     Inr (failed @ map fst (filter (\<lambda>(k, v). registers (uint k) \<noteq> Some v) es))"
  by (induction es arbitrary: failed) (auto split: option.splits)

lemma compare_registers_missing:
  "\<exists>k \<in> fst ` set es. registers (uint k) = None \<Longrightarrow>
   \<exists>k \<in> fst ` set es. registers (uint k) = None \<and>
     compare_registers registers es failed = Inl (MissingRegister k)"
proof (induction es arbitrary: failed)
  case Nil
  then show ?case by simp
next
  case (Cons e es)
  obtain k v where e: "e = (k, v)" by (cases e)
  show ?case
  proof (cases "registers (uint k)")
    case None
    then show ?thesis by (simp add: e)
  next
    case (Some bankDigest)
    with Cons.prems e have "\<exists>k \<in> fst ` set es. registers (uint k) = None" by auto
    from Cons.IH [OF this] Some show ?thesis by (simp add: e)
  qed
qed

lemma bank_registers_lookup:
  "distinct (map Idx mrs) \<Longrightarrow>
   bank_registers mrs registers i = Some d \<longleftrightarrow>
     (\<exists>r \<in> set mrs. Idx r = i \<and> Dgst r = d) \<or> (i \<notin> Idx ` set mrs \<and> registers i = Some d)"
  by (induction mrs arbitrary: registers) (auto simp: image_iff)

lemma extend_from_Cons:
  "extend_from H A acc (r # rs) i =
     (if Index r = i
      then extend_from H A (case Digests r A of None \<Rightarrow> acc | Some d \<Rightarrow> H A (acc @ d)) rs i
      else extend_from H A acc rs i)"
  by (simp add: extend_from_def)

lemma extend_from_notin: "i \<notin> Index ` set rs \<Longrightarrow> extend_from H A acc rs i = acc"
  by (induction rs arbitrary: acc) (auto simp: extend_from_Cons, simp add: extend_from_def)

lemma replay_records_Inr:
  "\<forall>r \<in> set recs. Digests r A \<noteq> None \<Longrightarrow>
   replay_records H A recs replayed =
     Inr (\<lambda>i. if i \<in> Index ` set recs
               then Some (extend_from H A
                      (case replayed i of None \<Rightarrow> replicate (hash_size A) 0 | Some a \<Rightarrow> a) recs i)
               else replayed i)"
proof (induction recs arbitrary: replayed)
  case Nil
  then show ?case by simp
next
  case (Cons r rs)
  from Cons.prems obtain d where d: "Digests r A = Some d" by auto
  from Cons.prems have rest: "\<forall>r \<in> set rs. Digests r A \<noteq> None" by simp
  show ?case
    by (simp add: d Let_def Cons.IH [OF rest])
       (auto simp: fun_eq_iff extend_from_notin extend_from_Cons d split: option.splits)
qed


lemma bank_registers_None:
  "distinct (map Idx mrs) \<Longrightarrow>
   bank_registers mrs Map.empty i = None \<longleftrightarrow> i \<notin> Idx ` set mrs"
proof -
  assume d: "distinct (map Idx mrs)"
  have "(\<exists>x. bank_registers mrs Map.empty i = Some x) \<longleftrightarrow> i \<in> Idx ` set mrs"
    using bank_registers_lookup [OF d, of Map.empty i] by auto
  then show ?thesis by (cases "bank_registers mrs Map.empty i") auto
qed

lemma Replay_unfold:
  assumes A: "CryptoHash regs = Inr A" and dig: "\<forall>r \<in> set (Recs c). Digests r A \<noteq> None"
  shows "Replay it H c regs =
    (case compare_registers (bank_registers (MRs regs) Map.empty)
            (go_range it (\<lambda>i. if i \<in> Index ` set (Recs c)
                               then Some (accumulator H A (Recs c) i) else None)) [] of
       Inl err \<Rightarrow> Some err
     | Inr failed \<Rightarrow> if failed = [] then None else Some (ReplayFailed A failed))"
proof -
  have "replay_records H A (Recs c) Map.empty =
    Inr (\<lambda>i. if i \<in> Index ` set (Recs c) then Some (accumulator H A (Recs c) i) else None)"
    unfolding replay_records_Inr [OF dig] accumulator_def by (simp cong: if_cong)
  then show ?thesis by (simp add: Replay_def A)
qed

lemma Replay_cases:
  assumes A: "CryptoHash regs = Inr A"
    and dig: "\<forall>r \<in> set (Recs c). Digests r A \<noteq> None"
    and bank: "distinct (map Idx (MRs regs))"
    and once: "\<And>m. dom m = Index ` set (Recs c) \<Longrightarrow> visits_once it m"
  shows "(\<exists>i \<in> Index ` set (Recs c). \<not> in_bank regs i) \<Longrightarrow>
           \<exists>i \<in> Index ` set (Recs c). \<not> in_bank regs i \<and>
              Replay it H c regs = Some (MissingRegister i)"
    and "(\<forall>i \<in> Index ` set (Recs c). in_bank regs i) \<Longrightarrow>
           \<exists>failed. distinct failed \<and>
             set failed = {i \<in> Index ` set (Recs c). \<not> agrees H A c regs i} \<and>
             Replay it H c regs =
               (if failed = [] then None else Some (ReplayFailed A failed))"
proof -
  define rp where "rp = (\<lambda>i. if i \<in> Index ` set (Recs c)
                               then Some (accumulator H A (Recs c) i) else None)"
  define registers where "registers = bank_registers (MRs regs) Map.empty"
  define es where "es = go_range it rp"
  have dom_rp: "dom rp = Index ` set (Recs c)"
    by (auto simp: rp_def dom_def)
  have vo: "visits_once it rp" by (rule once [OF dom_rp])
  have mem: "(k, v) \<in> set es \<longleftrightarrow> k \<in> Index ` set (Recs c) \<and> v = accumulator H A (Recs c) k"
    for k v
    using vo dom_rp unfolding es_def go_range_mem visits_once_def
    by (auto simp: rp_def split: if_splits)
  have keys: "fst ` set es = Index ` set (Recs c)"
  proof
    show "fst ` set es \<subseteq> Index ` set (Recs c)" using mem by auto
    show "Index ` set (Recs c) \<subseteq> fst ` set es"
    proof
      fix i assume "i \<in> Index ` set (Recs c)"
      then have "(i, accumulator H A (Recs c) i) \<in> set es" by (simp add: mem)
      then show "i \<in> fst ` set es" by force
    qed
  qed
  have dist: "distinct (map fst es)"
    using vo by (simp add: es_def go_range_keys visits_once_def)
  have reg_None: "registers (uint i) = None \<longleftrightarrow> \<not> in_bank regs i" for i
    unfolding registers_def in_bank_def bank_registers_None [OF bank] by force
  have reg_Some: "registers (uint i) = Some (accumulator H A (Recs c) i) \<longleftrightarrow> agrees H A c regs i"
    for i
    unfolding registers_def agrees_def bank_registers_lookup [OF bank] by auto
  have unfold: "Replay it H c regs =
    (case compare_registers registers es [] of
       Inl err \<Rightarrow> Some err
     | Inr failed \<Rightarrow> if failed = [] then None else Some (ReplayFailed A failed))"
    unfolding registers_def es_def rp_def by (rule Replay_unfold [OF A dig])
  {
    assume "\<exists>i \<in> Index ` set (Recs c). \<not> in_bank regs i"
    then have "\<exists>k \<in> fst ` set es. registers (uint k) = None"
      by (simp add: keys reg_None)
    from compare_registers_missing [OF this, of "[]"]
    show "\<exists>i \<in> Index ` set (Recs c). \<not> in_bank regs i \<and>
              Replay it H c regs = Some (MissingRegister i)"
      unfolding unfold keys reg_None by auto
  }
  {
    assume all: "\<forall>i \<in> Index ` set (Recs c). in_bank regs i"
    have "\<forall>(k, v) \<in> set es. registers (uint k) \<noteq> None"
      using all mem reg_None by auto
    from compare_registers_ok [OF this, of "[]"]
    have cmp: "compare_registers registers es [] =
      Inr (map fst (filter (\<lambda>(k, v). registers (uint k) \<noteq> Some v) es))" by simp
    let ?failed = "map fst (filter (\<lambda>(k, v). registers (uint k) \<noteq> Some v) es)"
    have d: "distinct ?failed" using dist by (rule distinct_map_filter)
    have s: "set ?failed = {i \<in> Index ` set (Recs c). \<not> agrees H A c regs i}"
      using mem reg_Some by (auto simp: image_iff)
    show "\<exists>failed. distinct failed \<and>
             set failed = {i \<in> Index ` set (Recs c). \<not> agrees H A c regs i} \<and>
             Replay it H c regs =
               (if failed = [] then None else Some (ReplayFailed A failed))"
      using d s unfolding unfold cmp by (intro exI [of _ ?failed]) simp
  }
qed


lemma sample_accumulators:
  "accumulator toy_hash SHA1 (Recs sample_log) 7 = [4, 50, 20]"
  "accumulator toy_hash SHA1 (Recs sample_log) 8 = [21, 9, 20]"
  by (simp_all add: accumulator_def extend_from_def sample_log_def sample_record_def
        toy_hash_def sum_list_replicate)

lemma sample_indices: "Index ` set (Recs sample_log) = {7, 8}"
  by (auto simp: sample_log_def sample_record_def)

text \<open>
  C1 (amended): for a log whose records all carry a digest of the bank's algorithm \<open>A\<close>,
  a bank with unique indices and any iteration that visits the replayed registers once,
  \<open>Replay\<close> succeeds exactly when every register index referenced by the log has a bank
  register whose digest is the accumulator folded from zero bytes with
  \<open>acc = H (acc \<parallel> digest)\<close> over the records of that index in order. A referenced index
  that the bank lacks gives a missing-register error for such an index. When every
  referenced index is in the bank, any disagreement gives the replay-mismatch error that
  lists exactly the disagreeing indices, each once. Registers of the bank that the log
  never references play no part, and the empty log succeeds.
\<close>

theorem Replay_correct:
  assumes A: "CryptoHash regs = Inr A"
    and dig: "\<forall>r \<in> set (Recs c). Digests r A \<noteq> None"
    and bank: "distinct (map Idx (MRs regs))"
    and once: "\<And>m. dom m = Index ` set (Recs c) \<Longrightarrow> visits_once it m"
  shows "(Replay it H c regs = None \<longleftrightarrow>
           (\<forall>i \<in> Index ` set (Recs c). agrees H A c regs i)) \<and>
         ((\<exists>i \<in> Index ` set (Recs c). \<not> in_bank regs i) \<longrightarrow>
           (\<exists>i \<in> Index ` set (Recs c). \<not> in_bank regs i \<and>
              Replay it H c regs = Some (MissingRegister i))) \<and>
         ((\<forall>i \<in> Index ` set (Recs c). in_bank regs i) \<and>
          (\<exists>i \<in> Index ` set (Recs c). \<not> agrees H A c regs i) \<longrightarrow>
           (\<exists>failed. distinct failed \<and>
              set failed = {i \<in> Index ` set (Recs c). \<not> agrees H A c regs i} \<and>
              Replay it H c regs = Some (ReplayFailed A failed))) \<and>
         (Recs c = [] \<longrightarrow> Replay it H c regs = None)"
proof -
  note cases = Replay_cases [OF A dig bank once]
  have agrees_in_bank: "agrees H A c regs i \<Longrightarrow> in_bank regs i" for i
    by (auto simp: agrees_def in_bank_def)
  have missing: "(\<exists>i \<in> Index ` set (Recs c). \<not> in_bank regs i) \<longrightarrow>
           (\<exists>i \<in> Index ` set (Recs c). \<not> in_bank regs i \<and>
              Replay it H c regs = Some (MissingRegister i))"
    using cases(1) by blast
  have mismatch: "(\<forall>i \<in> Index ` set (Recs c). in_bank regs i) \<and>
          (\<exists>i \<in> Index ` set (Recs c). \<not> agrees H A c regs i) \<longrightarrow>
           (\<exists>failed. distinct failed \<and>
              set failed = {i \<in> Index ` set (Recs c). \<not> agrees H A c regs i} \<and>
              Replay it H c regs = Some (ReplayFailed A failed))"
  proof
    assume h: "(\<forall>i \<in> Index ` set (Recs c). in_bank regs i) \<and>
          (\<exists>i \<in> Index ` set (Recs c). \<not> agrees H A c regs i)"
    then obtain failed where f: "distinct failed"
        "set failed = {i \<in> Index ` set (Recs c). \<not> agrees H A c regs i}"
        "Replay it H c regs = (if failed = [] then None else Some (ReplayFailed A failed))"
      using cases(2) by blast
    from h f(2) have "failed \<noteq> []" by auto
    with f show "\<exists>failed. distinct failed \<and>
              set failed = {i \<in> Index ` set (Recs c). \<not> agrees H A c regs i} \<and>
              Replay it H c regs = Some (ReplayFailed A failed)" by auto
  qed
  have success: "Replay it H c regs = None \<longleftrightarrow>
           (\<forall>i \<in> Index ` set (Recs c). agrees H A c regs i)"
  proof (cases "\<forall>i \<in> Index ` set (Recs c). in_bank regs i")
    case True
    then obtain failed where f:
        "set failed = {i \<in> Index ` set (Recs c). \<not> agrees H A c regs i}"
        "Replay it H c regs = (if failed = [] then None else Some (ReplayFailed A failed))"
      using cases(2) by blast
    have "set failed = {} \<longleftrightarrow> (\<forall>i \<in> Index ` set (Recs c). agrees H A c regs i)"
      unfolding f(1) by blast
    then have "failed = [] \<longleftrightarrow> (\<forall>i \<in> Index ` set (Recs c). agrees H A c regs i)"
      by simp
    then show ?thesis by (simp add: f(2))
  next
    case False
    then have "\<exists>i \<in> Index ` set (Recs c). \<not> in_bank regs i" by blast
    with missing obtain i where i: "i \<in> Index ` set (Recs c)" "\<not> in_bank regs i"
        "Replay it H c regs = Some (MissingRegister i)" by blast
    from i(1,2) agrees_in_bank have "\<not> (\<forall>i \<in> Index ` set (Recs c). agrees H A c regs i)"
      by blast
    then show ?thesis by (simp add: i(3))
  qed
  have empty: "Recs c = [] \<longrightarrow> Replay it H c regs = None"
    using success by simp
  from success missing mismatch empty show ?thesis by blast
qed

theorem Replay_correct_witness:
  "CryptoHash matching_bank = Inr SHA1 \<and>
   list_all (\<lambda>r. Digests r SHA1 \<noteq> None) (Recs sample_log) \<and>
   distinct (map Idx (MRs matching_bank)) \<and>
   map Index (Recs sample_log) = [7, 8, 7] \<and>
   agrees toy_hash SHA1 sample_log matching_bank 7 \<and>
   agrees toy_hash SHA1 sample_log matching_bank 8 \<and>
   Replay register_order toy_hash sample_log matching_bank = None"
proof -
  have A: "CryptoHash matching_bank = Inr SHA1" by (simp add: matching_bank_def)
  have dig: "\<forall>r \<in> set (Recs sample_log). Digests r SHA1 \<noteq> None"
    by (simp add: sample_log_def sample_record_def)
  have bank: "distinct (map Idx (MRs matching_bank))" by (simp add: matching_bank_def)
  have once: "\<And>m. dom m = Index ` set (Recs sample_log) \<Longrightarrow> visits_once register_order m"
    by (auto simp: visits_once_def register_order_def sample_log_def sample_record_def)
  have ag: "\<forall>i \<in> Index ` set (Recs sample_log). agrees toy_hash SHA1 sample_log matching_bank i"
    by (simp add: sample_indices agrees_def sample_accumulators matching_bank_def)
  have idx: "map Index (Recs sample_log) = [7, 8, 7]"
    by (simp add: sample_log_def sample_record_def)
  from Replay_correct [OF A dig bank once, of toy_hash] ag
  have "Replay register_order toy_hash sample_log matching_bank = None" by blast
  with A dig bank ag idx show ?thesis
    by (simp add: list_all_iff sample_indices)
qed

text \<open>
  C1 as stated fails where a disagreement and a missing register meet: the log extends
  the registers 7 and 8, the bank holds a wrong digest for 7 and nothing for 8, and the
  result is the missing-register error, not the replay mismatch.
\<close>

theorem Replay_missing_before_mismatch:
  "in_bank short_wrong_bank 7 \<and>
   \<not> agrees toy_hash SHA1 sample_log short_wrong_bank 7 \<and>
   Replay register_order toy_hash sample_log short_wrong_bank = Some (MissingRegister 8)"
proof -
  have "in_bank short_wrong_bank 7"
    by (simp add: in_bank_def short_wrong_bank_def)
  moreover have "\<not> agrees toy_hash SHA1 sample_log short_wrong_bank 7"
    by (simp add: agrees_def sample_accumulators short_wrong_bank_def)
  moreover have "Replay register_order toy_hash sample_log short_wrong_bank =
      Some (MissingRegister 8)"
    by (simp add: short_wrong_bank_def Replay_def sample_log_def sample_record_def
          go_range_def register_order_def toy_hash_def)
  ultimately show ?thesis by blast
qed


section \<open>Encoding and decoding a canonical event log\<close>

lemma nat_be_Suc: "nat_be (Suc n) k = of_nat (k div 256 ^ n) # nat_be n k"
  by (simp add: nat_be_def)

lemma length_nat_be [simp]: "length (nat_be n k) = n"
  by (simp add: nat_be_def)

lemma nat_be_eq_Nil [simp]: "nat_be n k = [] \<longleftrightarrow> n = 0"
  by (simp add: nat_be_def)

lemma be_nat_nat_be: "be_nat (nat_be n k) = k mod 256 ^ n"
proof (induction n)
  case 0
  then show ?case by (simp add: nat_be_def)
next
  case (Suc n)
  have "unat (of_nat (k div 256 ^ n) :: byte) = k div 256 ^ n mod 256"
    by (simp add: unat_of_nat)
  then have "be_nat (nat_be (Suc n) k) = (k div 256 ^ n mod 256) * 256 ^ n + k mod 256 ^ n"
    by (simp add: nat_be_Suc Suc.IH)
  also have "\<dots> = 256 ^ n * (k div 256 ^ n mod 256) + k mod 256 ^ n"
    by simp
  also have "\<dots> = k mod (256 ^ n * 256)"
    by (rule mod_mult2_eq [symmetric])
  finally show ?case by (simp add: mult.commute)
qed

lemma be_nat_nat_be_4: "k < 2 ^ 32 \<Longrightarrow> be_nat (nat_be 4 k) = k"
  by (simp add: be_nat_nat_be)

lemma be_nat_bound: "be_nat bs < 256 ^ length bs"
proof (induction bs)
  case Nil
  then show ?case by simp
next
  case (Cons b bs)
  have "unat b < 2 ^ LENGTH(8)" by (rule unsigned_less)
  then have "unat b < 256" by simp
  then have "unat b \<le> 255" by simp
  then have "unat b * 256 ^ length bs \<le> 255 * 256 ^ length bs"
    by (rule mult_le_mono1)
  with Cons.IH have "unat b * 256 ^ length bs + be_nat bs < 255 * 256 ^ length bs + 256 ^ length bs"
    by linarith
  then show ?case by simp
qed

lemma unmarshalFirstTLV_Marshal:
  assumes "length (Value t) < 2 ^ 32"
  shows "unmarshalFirstTLV (MarshalBinary t @ rest) = Inr (t, rest)"
proof -
  let ?len = "nat_be 4 (length (Value t))"
  have m: "MarshalBinary t = Type t # ?len @ Value t"
    using assms by (simp add: MarshalBinary_def)
  have len: "be_nat ?len = length (Value t)"
    using assms by (simp add: be_nat_nat_be_4)
  have "UnmarshalBinary (Type t # ?len @ Value t) = Inr t"
    using assms by (simp add: UnmarshalBinary_def len)
  then show ?thesis
    by (simp add: unmarshalFirstTLV_def m Let_def len)
qed


lemma AlgorithmHash_HashToAlgorithm:
  "HashToAlgorithm h = Inr a \<Longrightarrow> AlgorithmHash (unat (of_nat a :: byte)) = Inr h"
  by (cases h) (auto simp: AlgorithmHash_def)

lemma HashToAlgorithm_supported:
  "HashToAlgorithm h = Inr a \<Longrightarrow> h \<in> {SHA1, SHA256, SHA384, SHA512}"
  by (cases h) auto

lemma hash_size_le: "hash_size h \<le> 64"
  by (cases h) auto

lemma MarshalBinary_nonempty [simp]: "MarshalBinary t \<noteq> []"
  by (simp add: MarshalBinary_def)

lemma unmarshalDigests_loop_Marshal:
  assumes "HashToAlgorithm h = Inr a" and "length d < 2 ^ 32"
  shows "unmarshalDigests_loop (MarshalBinary \<lparr>Type = of_nat a, Value = d\<rparr> @ rest) m0 =
         unmarshalDigests_loop rest (m0(h \<mapsto> d))"
proof -
  have first: "unmarshalFirstTLV (MarshalBinary \<lparr>Type = of_nat a, Value = d\<rparr> @ rest) =
      Inr (\<lparr>Type = of_nat a, Value = d\<rparr>, rest)"
    using assms(2) by (simp add: unmarshalFirstTLV_Marshal)
  show ?thesis
    by (subst unmarshalDigests_loop.simps)
       (simp add: first AlgorithmHash_HashToAlgorithm [OF assms(1)])
qed

lemma length_MarshalBinary: "length (MarshalBinary t) = 5 + length (Value t)"
  by (simp add: MarshalBinary_def)

lemma digest_tlvs_decoded:
  "digest_tlvs es buf = Inr out \<Longrightarrow>
   \<exists>bs. out = buf @ bs \<and> length bs \<le> 69 * length es \<and>
        fst ` set es \<subseteq> {SHA1, SHA256, SHA384, SHA512} \<and>
        (distinct (map fst es) \<longrightarrow>
           (\<forall>m0. unmarshalDigests_loop bs m0 = Inr (m0 ++ map_of es)))"
proof (induction es arbitrary: buf out)
  case Nil
  then show ?case by (simp add: unmarshalDigests_loop.simps [of "[]"])
next
  case (Cons e es)
  obtain h d where e: "e = (h, d)" by (cases e)
  from Cons.prems e obtain a where
        len: "length d = hash_size h" and a: "HashToAlgorithm h = Inr a"
    and rest: "digest_tlvs es (buf @ MarshalBinary \<lparr>Type = of_nat a, Value = d\<rparr>) = Inr out"
    by (auto split: if_splits sum.splits)
  let ?M = "MarshalBinary \<lparr>Type = of_nat a, Value = d\<rparr>"
  from Cons.IH [OF rest] obtain bs where bs: "out = (buf @ ?M) @ bs"
      "length bs \<le> 69 * length es" "fst ` set es \<subseteq> {SHA1, SHA256, SHA384, SHA512}"
      "distinct (map fst es) \<longrightarrow> (\<forall>m0. unmarshalDigests_loop bs m0 = Inr (m0 ++ map_of es))"
    by blast
  have d32: "length d < 2 ^ 32" using len hash_size_le [of h] by simp
  have lenM: "length ?M \<le> 69" using len hash_size_le [of h] by (simp add: length_MarshalBinary)
  have dec: "distinct (map fst (e # es)) \<longrightarrow>
      (\<forall>m0. unmarshalDigests_loop (?M @ bs) m0 = Inr (m0 ++ map_of (e # es)))"
  proof (intro impI allI)
    fix m0 assume dist: "distinct (map fst (e # es))"
    then have "h \<notin> fst ` set es" and "distinct (map fst es)" by (auto simp: e)
    then have "map_of es h = None" by (simp add: map_of_eq_None_iff)
    then have "m0(h \<mapsto> d) ++ map_of es = m0 ++ map_of (e # es)"
      by (auto simp: e fun_eq_iff map_add_def split: option.splits)
    with bs(4) \<open>distinct (map fst es)\<close> show
      "unmarshalDigests_loop (?M @ bs) m0 = Inr (m0 ++ map_of (e # es))"
      by (simp add: unmarshalDigests_loop_Marshal [OF a d32])
  qed
  show ?case
  proof (intro exI [of _ "?M @ bs"] conjI)
    show "out = buf @ ?M @ bs" using bs(1) by simp
    show "length (?M @ bs) \<le> 69 * length (e # es)" using bs(2) lenM by simp
    show "fst ` set (e # es) \<subseteq> {SHA1, SHA256, SHA384, SHA512}"
      using bs(3) HashToAlgorithm_supported [OF a] by (simp add: e)
    show "distinct (map fst (e # es)) \<longrightarrow>
      (\<forall>m0. unmarshalDigests_loop (?M @ bs) m0 = Inr (m0 ++ map_of (e # es)))"
      by (rule dec)
  qed
qed

lemma map_of_go_range:
  assumes "visits_once it m"
  shows "map_of (go_range it m) = m"
proof
  fix k
  have dist: "distinct (map fst (go_range it m))"
    using assms by (simp add: go_range_keys visits_once_def)
  show "map_of (go_range it m) k = m k"
  proof (cases "m k")
    case None
    then have "k \<notin> fst ` set (go_range it m)" by (auto simp: go_range_mem)
    then show ?thesis by (simp add: None map_of_eq_None_iff)
  next
    case (Some v)
    then have "k \<in> set (it m)" using assms by (auto simp: visits_once_def)
    then have "(k, v) \<in> set (go_range it m)" by (simp add: go_range_mem Some)
    then show ?thesis using dist by (simp add: Some)
  qed
qed

lemma supported_keys_length:
  assumes "distinct ks" and "set ks \<subseteq> {SHA1, SHA256, SHA384, SHA512}"
  shows "length ks \<le> 4"
proof -
  have "length ks = card (set ks)" using assms(1) by (simp add: distinct_card)
  also have "\<dots> \<le> card {SHA1, SHA256, SHA384, SHA512}"
    using assms(2) by (intro card_mono) auto
  also have "\<dots> = 4" by simp
  finally show ?thesis .
qed

lemma createDigestField_decoded:
  assumes "createDigestField it m = Inr digests" and "visits_once it m"
  shows "unmarshalDigests digests = Inr m \<and> length (Value digests) < 2 ^ 32"
proof -
  from assms(1) have run: "digest_tlvs (go_range it m) [] = Inr (Value digests)"
    and ty: "Type digests = digestsTypeValue"
    by (auto simp: createDigestField_def split: sum.splits)
  have dist: "distinct (map fst (go_range it m))"
    using assms(2) by (simp add: go_range_keys visits_once_def)
  from digest_tlvs_decoded [OF run] dist
  have len: "length (Value digests) \<le> 69 * length (go_range it m)"
    and keys: "fst ` set (go_range it m) \<subseteq> {SHA1, SHA256, SHA384, SHA512}"
    and dec: "unmarshalDigests_loop (Value digests) Map.empty = Inr (map_of (go_range it m))"
    by auto
  have "length (map fst (go_range it m)) \<le> 4"
    using dist keys by (intro supported_keys_length) auto
  with len have "length (Value digests) < 2 ^ 32" by simp
  then show ?thesis
    by (simp add: unmarshalDigests_def ty dec map_of_go_range [OF assms(2)])
qed


lemma unmarshalRecNum_create: "unmarshalRecNum (createRecNumField w) = Inr w"
proof -
  have "unat w < 2 ^ LENGTH(64)" by (rule unsigned_less)
  then have "unat w mod 256 ^ 8 = unat w" by simp
  then show ?thesis
    by (simp add: unmarshalRecNum_def createRecNumField_def be_nat_nat_be)
qed

lemma unmarshalIndex_create:
  "ty = PCRType \<or> ty = CCMRType \<Longrightarrow> unmarshalIndex (createIndexField ty i) = Inr (ty, i)"
  by (auto simp: unmarshalIndex_def createIndexField_def)

lemma EncodeCELR_decoded:
  assumes enc: "EncodeCELR it r buf = (None, out)"
    and ty: "IndexType r = PCRType \<or> IndexType r = CCMRType"
    and content: "length (Value (Content r)) < 2 ^ 32"
    and once: "visits_once it (Digests r)"
  shows "\<exists>bs. out = buf @ bs \<and> bs \<noteq> [] \<and> (\<forall>rest. decodeToCELR (bs @ rest) = Inr (r, rest))"
proof -
  from enc obtain digests where dg: "createDigestField it (Digests r) = Inr digests"
    and out: "out = buf @ MarshalBinary (createRecNumField (RecNum r))
                  @ MarshalBinary (createIndexField (IndexType r) (Index r))
                  @ MarshalBinary digests @ MarshalBinary (Content r)"
    by (auto simp: EncodeCELR_def Let_def split: sum.splits)
  from createDigestField_decoded [OF dg once]
  have dec: "unmarshalDigests digests = Inr (Digests r)"
    and dlen: "length (Value digests) < 2 ^ 32" by auto
  have l1: "length (Value (createRecNumField (RecNum r))) < 2 ^ 32"
    by (simp add: createRecNumField_def)
  have l2: "length (Value (createIndexField (IndexType r) (Index r))) < 2 ^ 32"
    by (simp add: createIndexField_def)
  let ?bs = "MarshalBinary (createRecNumField (RecNum r))
                  @ MarshalBinary (createIndexField (IndexType r) (Index r))
                  @ MarshalBinary digests @ MarshalBinary (Content r)"
  have "decodeToCELR (?bs @ rest) = Inr (r, rest)" for rest
    by (simp add: decodeToCELR_def unmarshalFirstTLV_Marshal [OF l1]
          unmarshalFirstTLV_Marshal [OF l2] unmarshalFirstTLV_Marshal [OF dlen]
          unmarshalFirstTLV_Marshal [OF content] unmarshalRecNum_create
          unmarshalIndex_create [OF ty] dec)
  then show ?thesis using out by (intro exI [of _ ?bs]) simp
qed

lemma encode_records_decoded_append:
  "encode_records it rs buf = (None, out) \<Longrightarrow>
   \<forall>r \<in> set rs. (IndexType r = PCRType \<or> IndexType r = CCMRType) \<and>
      length (Value (Content r)) < 2 ^ 32 \<and> visits_once it (Digests r) \<Longrightarrow>
   \<exists>bs. out = buf @ bs \<and>
     (\<forall>acc rest. decode_records (bs @ rest) acc = decode_records rest (acc @ rs))"
proof (induction rs arbitrary: buf out)
  case Nil
  then show ?case by simp
next
  case (Cons r rs)
  from Cons.prems(1) obtain buf' where r: "EncodeCELR it r buf = (None, buf')"
    and rest: "encode_records it rs buf' = (None, out)"
    by (auto split: prod.splits option.splits)
  from Cons.prems(2) have okr: "IndexType r = PCRType \<or> IndexType r = CCMRType"
      "length (Value (Content r)) < 2 ^ 32" "visits_once it (Digests r)"
    and okrs: "\<forall>r \<in> set rs. (IndexType r = PCRType \<or> IndexType r = CCMRType) \<and>
      length (Value (Content r)) < 2 ^ 32 \<and> visits_once it (Digests r)"
    by auto
  from EncodeCELR_decoded [OF r okr] obtain bs1 where bs1: "buf' = buf @ bs1" "bs1 \<noteq> []"
      "\<forall>rest. decodeToCELR (bs1 @ rest) = Inr (r, rest)" by blast
  from Cons.IH [OF rest okrs] obtain bs2 where bs2: "out = buf' @ bs2"
      "\<forall>acc rest. decode_records (bs2 @ rest) acc = decode_records rest (acc @ rs)" by blast
  have "decode_records ((bs1 @ bs2) @ rest) acc = decode_records rest (acc @ r # rs)"
    for acc rest
  proof -
    have "decode_records (bs1 @ (bs2 @ rest)) acc = decode_records (bs2 @ rest) (acc @ [r])"
      by (subst decode_records.simps) (simp add: bs1(2,3))
    then show ?thesis by (simp add: bs2(2))
  qed
  then show ?case using bs1(1) bs2(1) by (intro exI [of _ "bs1 @ bs2"]) simp
qed

lemma encode_records_decoded:
  assumes "encode_records it rs buf = (None, out)"
    and "\<forall>r \<in> set rs. (IndexType r = PCRType \<or> IndexType r = CCMRType) \<and>
      length (Value (Content r)) < 2 ^ 32 \<and> visits_once it (Digests r)"
  shows "\<exists>bs. out = buf @ bs \<and> (\<forall>acc. decode_records bs acc = Inr (acc @ rs))"
proof -
  from encode_records_decoded_append [OF assms] obtain bs where bs: "out = buf @ bs"
    "\<forall>acc rest. decode_records (bs @ rest) acc = decode_records rest (acc @ rs)" by blast
  have "decode_records bs acc = Inr (acc @ rs)" for acc
    using bs(2) [rule_format, of "[]" acc] by (simp add: decode_records.simps [of "[]"])
  with bs(1) show ?thesis by blast
qed

lemma check_types_same:
  "z = PCRType \<or> z = CCMRType \<Longrightarrow> \<forall>r \<in> set rs. IndexType r = z \<Longrightarrow> check_types z rs = None"
  by (induction rs) (auto simp: supportedMRType_def)

lemma digest_tlvs_succeeds:
  "\<forall>(h, d) \<in> set es. length d = hash_size h \<and> h \<in> {SHA1, SHA256, SHA384, SHA512} \<Longrightarrow>
   \<exists>out. digest_tlvs es buf = Inr out"
  by (induction es arbitrary: buf) auto

lemma EncodeCELR_succeeds:
  assumes "\<forall>h d. Digests r h = Some d \<longrightarrow>
             length d = hash_size h \<and> h \<in> {SHA1, SHA256, SHA384, SHA512}"
  shows "\<exists>out. EncodeCELR it r buf = (None, out)"
proof -
  have "\<forall>(h, d) \<in> set (go_range it (Digests r)).
          length d = hash_size h \<and> h \<in> {SHA1, SHA256, SHA384, SHA512}"
    using assms by (fastforce simp: go_range_mem)
  from digest_tlvs_succeeds [OF this, of "[]"] show ?thesis
    by (auto simp: EncodeCELR_def createDigestField_def Let_def)
qed

lemma encode_records_succeeds:
  "\<forall>r \<in> set rs. \<forall>h d. Digests r h = Some d \<longrightarrow>
       length d = hash_size h \<and> h \<in> {SHA1, SHA256, SHA384, SHA512} \<Longrightarrow>
   \<exists>out. encode_records it rs buf = (None, out)"
proof (induction rs arbitrary: buf)
  case Nil
  then show ?case by simp
next
  case (Cons r rs)
  then obtain buf' where "EncodeCELR it r buf = (None, buf')"
    using EncodeCELR_succeeds [of r it buf] by auto
  with Cons show ?case by simp
qed

lemma visits_once_hash_order: "visits_once hash_order m"
proof -
  have "h \<in> set (hash_order m)" for h
    by (cases h) (simp_all add: hash_order_def)
  then show ?thesis by (auto simp: visits_once_def) (simp add: hash_order_def)
qed

lemma cel_record_digests:
  "Digests (cel_record n i) h = Some d \<Longrightarrow>
   length d = hash_size h \<and> h \<in> {SHA1, SHA256, SHA384, SHA512}"
  by (cases h) (auto simp: cel_record_def)

text \<open>
  C2 (amended): take a log whose MR type is PCR or CCMR, whose records all carry that
  index type, whose digests have the length of their algorithm and an algorithm with a
  TPM identifier (SHA-1, SHA-256, SHA-384, SHA-512), and whose contents are shorter than
  \<open>2 ^ 32\<close> bytes. In whatever order the digest maps are iterated, \<open>EncodeCEL\<close> into an
  empty buffer succeeds and \<open>DecodeToCEL\<close> of the bytes succeeds with the records of the
  input, field by field; when the log has at least two records the decoded log is the
  input, MR type included.
\<close>

theorem CEL_roundtrip:
  assumes types: "MRType c = PCRType \<or> MRType c = CCMRType"
      "\<forall>r \<in> set (Recs c). IndexType r = MRType c"
    and digests: "\<forall>r \<in> set (Recs c). \<forall>h d. Digests r h = Some d \<longrightarrow>
       length d = hash_size h \<and> h \<in> {SHA1, SHA256, SHA384, SHA512}"
    and content: "\<forall>r \<in> set (Recs c). length (Value (Content r)) < 2 ^ 32"
    and once: "\<forall>r \<in> set (Recs c). visits_once it (Digests r)"
  shows "\<exists>bs c'. EncodeCEL it c [] = (None, bs) \<and> DecodeToCEL bs = Inr c' \<and>
           Recs c' = Recs c \<and> (1 < length (Recs c) \<longrightarrow> c' = c)"
proof -
  from encode_records_succeeds [OF digests, of it "[]"]
  obtain bs where enc: "encode_records it (Recs c) [] = (None, bs)" by blast
  have ok: "\<forall>r \<in> set (Recs c). (IndexType r = PCRType \<or> IndexType r = CCMRType) \<and>
      length (Value (Content r)) < 2 ^ 32 \<and> visits_once it (Digests r)"
    using types content once by auto
  from encode_records_decoded [OF enc ok]
  have dec: "decode_records bs [] = Inr (Recs c)" by auto
  show ?thesis
  proof (cases "1 < length (Recs c)")
    case True
    then obtain rec0 rest where recs: "Recs c = rec0 # rest" by (cases "Recs c") auto
    with types(2) have z: "IndexType rec0 = MRType c" by simp
    have "check_types (MRType c) (Recs c) = None"
      using types by (intro check_types_same) auto
    then have "DecodeToCEL bs = Inr c"
      using True by (simp add: DecodeToCEL_def dec recs z)
    with enc show ?thesis by (simp add: EncodeCEL_def)
  next
    case False
    then have "DecodeToCEL bs = Inr \<lparr>Recs = Recs c, MRType = 0\<rparr>"
      by (simp add: DecodeToCEL_def dec)
    with enc False show ?thesis by (simp add: EncodeCEL_def)
  qed
qed


theorem CEL_roundtrip_witness:
  "(MRType two_record_log = PCRType \<or> MRType two_record_log = CCMRType) \<and>
   list_all (\<lambda>r. IndexType r = MRType two_record_log) (Recs two_record_log) \<and>
   list_all (\<lambda>r. length (Value (Content r)) < 2 ^ 32) (Recs two_record_log) \<and>
   length (Recs two_record_log) = 2 \<and>
   fst (EncodeCEL hash_order two_record_log []) = None \<and>
   DecodeToCEL (snd (EncodeCEL hash_order two_record_log [])) = Inr two_record_log"
proof -
  have t1: "MRType two_record_log = PCRType \<or> MRType two_record_log = CCMRType"
    by (simp add: two_record_log_def)
  have t2: "\<forall>r \<in> set (Recs two_record_log). IndexType r = MRType two_record_log"
    by (simp add: two_record_log_def cel_record_def)
  have dg: "\<forall>r \<in> set (Recs two_record_log). \<forall>h d. Digests r h = Some d \<longrightarrow>
       length d = hash_size h \<and> h \<in> {SHA1, SHA256, SHA384, SHA512}"
    using cel_record_digests by (simp add: two_record_log_def)
  have ct: "\<forall>r \<in> set (Recs two_record_log). length (Value (Content r)) < 2 ^ 32"
    by (simp add: two_record_log_def cel_record_def)
  have once: "\<forall>r \<in> set (Recs two_record_log). visits_once hash_order (Digests r)"
    by (simp add: visits_once_hash_order)
  have two: "1 < length (Recs two_record_log)" by (simp add: two_record_log_def)
  from CEL_roundtrip [OF t1 t2 dg ct once] two
  have "fst (EncodeCEL hash_order two_record_log []) = None \<and>
   DecodeToCEL (snd (EncodeCEL hash_order two_record_log [])) = Inr two_record_log"
    by auto
  with t1 t2 ct show ?thesis by (simp add: list_all_iff) (simp add: two_record_log_def)
qed

text \<open>
  C2 as stated fails on the MR type of short logs: \<open>DecodeToCEL\<close> sets the type only
  when it has read more than one record. A PCR log of one record, and the empty PCR log,
  come back with the records of the input and the MR type 0. A digest of an algorithm
  without a TPM identifier (MD5, 16 bytes) has the length of its algorithm and is refused
  by \<open>EncodeCEL\<close>.
\<close>

theorem DecodeToCEL_loses_MRType:
  "fst (EncodeCEL hash_order one_record_log []) = None \<and>
   DecodeToCEL (snd (EncodeCEL hash_order one_record_log [])) =
     Inr \<lparr>Recs = Recs one_record_log, MRType = 0\<rparr> \<and>
   MRType one_record_log = PCRType \<and> PCRType \<noteq> 0 \<and>
   EncodeCEL hash_order empty_pcr_log [] = (None, []) \<and>
   DecodeToCEL [] = Inr \<lparr>Recs = Recs empty_pcr_log, MRType = 0\<rparr> \<and>
   MRType empty_pcr_log = PCRType \<and>
   fst (EncodeCEL hash_order md5_log []) = Some (NoTPMAlgorithm MD5)"
proof -
  have dg: "\<forall>r \<in> set (Recs one_record_log). \<forall>h d. Digests r h = Some d \<longrightarrow>
       length d = hash_size h \<and> h \<in> {SHA1, SHA256, SHA384, SHA512}"
    using cel_record_digests by (simp add: one_record_log_def)
  from encode_records_succeeds [OF dg, of hash_order "[]"]
  obtain bs where enc: "encode_records hash_order (Recs one_record_log) [] = (None, bs)"
    by blast
  have ok: "\<forall>r \<in> set (Recs one_record_log).
      (IndexType r = PCRType \<or> IndexType r = CCMRType) \<and>
      length (Value (Content r)) < 2 ^ 32 \<and> visits_once hash_order (Digests r)"
    by (simp add: one_record_log_def cel_record_def visits_once_hash_order)
  from encode_records_decoded [OF enc ok]
  have dec: "decode_records bs [] = Inr (Recs one_record_log)" by auto
  have one: "length (Recs one_record_log) = 1" by (simp add: one_record_log_def)
  have a: "fst (EncodeCEL hash_order one_record_log []) = None"
    by (simp add: EncodeCEL_def enc)
  have b: "DecodeToCEL (snd (EncodeCEL hash_order one_record_log [])) =
     Inr \<lparr>Recs = Recs one_record_log, MRType = 0\<rparr>"
    by (simp add: EncodeCEL_def enc DecodeToCEL_def dec one)
  have c: "MRType one_record_log = PCRType \<and> PCRType \<noteq> 0 \<and> MRType empty_pcr_log = PCRType"
    by (simp add: one_record_log_def PCRType_def empty_pcr_log_def)
  have d: "EncodeCEL hash_order empty_pcr_log [] = (None, []) \<and>
   DecodeToCEL [] = Inr \<lparr>Recs = Recs empty_pcr_log, MRType = 0\<rparr>"
    by (simp add: EncodeCEL_def empty_pcr_log_def DecodeToCEL_def decode_records.simps [of "[]"])
  have e: "fst (EncodeCEL hash_order md5_log []) = Some (NoTPMAlgorithm MD5)"
    by (simp add: EncodeCEL_def md5_log_def EncodeCELR_def createDigestField_def go_range_def
          hash_order_def)
  from a b c d e show ?thesis by blast
qed


section \<open>Decoding malformed bytes\<close>

lemma be_nat_4_bound: "length bs \<le> 4 \<Longrightarrow> be_nat bs < 2 ^ 32"
proof -
  assume "length bs \<le> 4"
  then have "(256::nat) ^ length bs \<le> 256 ^ 4" by (intro power_increasing) auto
  with be_nat_bound [of bs] show ?thesis by simp
qed

lemma unmarshalFirstTLV_cases:
  "unmarshalFirstTLV buf =
     (if tlv_truncated buf then Inl EOF
      else Inr (\<lparr>Type = buf ! 0, Value = take (be_nat (take 4 (drop 1 buf))) (drop 5 buf)\<rparr>,
                drop (5 + be_nat (take 4 (drop 1 buf))) buf))"
proof (cases buf)
  case Nil
  then show ?thesis by (simp add: unmarshalFirstTLV_def tlv_truncated_def)
next
  case (Cons typeByte buf1)
  have b: "be_nat (take 4 buf1) < 2 ^ 32" by (rule be_nat_4_bound) simp
  show ?thesis
    using b
    by (auto simp: Cons unmarshalFirstTLV_def tlv_truncated_def Let_def UnmarshalBinary_def
          min_def drop_Cons' add.commute)
qed


lemma unmarshalFirstTLV_error: "unmarshalFirstTLV buf = Inl e \<Longrightarrow> e = EOF"
  by (simp add: unmarshalFirstTLV_cases split: if_splits)

lemma AlgorithmHash_error: "AlgorithmHash a = Inl e \<Longrightarrow> is_parse_error e"
  by (auto simp: AlgorithmHash_def split: if_splits)

lemma unmarshalDigests_loop_error:
  "unmarshalDigests_loop buf m = Inl e \<Longrightarrow> is_parse_error e"
proof (induction buf m rule: unmarshalDigests_loop.induct)
  case (1 buf digestsMap)
  show ?case
  proof (cases "buf = []")
    case True
    with "1.prems" show ?thesis by (simp add: unmarshalDigests_loop.simps [of "[]"])
  next
    case False
    show ?thesis
    proof (cases "unmarshalFirstTLV buf")
      case (Inl err)
      with "1.prems" False unmarshalFirstTLV_error [OF Inl] show ?thesis
        by (simp add: unmarshalDigests_loop.simps [of buf])
    next
      case (Inr p)
      obtain digestTLV buf' where p: "p = (digestTLV, buf')" by (cases p)
      show ?thesis
      proof (cases "AlgorithmHash (unat (Type digestTLV))")
        case (Inl err)
        with "1.prems" False Inr p AlgorithmHash_error [OF Inl] show ?thesis
          by (simp add: unmarshalDigests_loop.simps [of buf])
      next
        case hashAlg: (Inr hashAlg)
        from "1.prems" False Inr p hashAlg
        have "unmarshalDigests_loop buf' (digestsMap(hashAlg \<mapsto> Value digestTLV)) = Inl e"
          by (simp add: unmarshalDigests_loop.simps [of buf])
        with "1.IH" [OF False Inr p [symmetric] hashAlg] show ?thesis
          by (simp add: fun_upd_def)
      qed
    qed
  qed
qed

lemma unmarshalDigests_error: "unmarshalDigests t = Inl e \<Longrightarrow> is_parse_error e"
  by (auto simp: unmarshalDigests_def split: if_splits dest: unmarshalDigests_loop_error)

lemma unmarshalRecNum_error: "unmarshalRecNum t = Inl e \<Longrightarrow> is_parse_error e"
  by (auto simp: unmarshalRecNum_def split: if_splits)

lemma unmarshalIndex_error: "unmarshalIndex t = Inl e \<Longrightarrow> is_parse_error e"
  by (auto simp: unmarshalIndex_def split: if_splits list.splits)

lemma decodeToCELR_error: "decodeToCELR buf = Inl e \<Longrightarrow> e = EOF \<or> is_parse_error e"
  unfolding decodeToCELR_def
  by (auto split: sum.splits prod.splits
           dest!: unmarshalFirstTLV_error unmarshalDigests_error unmarshalRecNum_error
                 unmarshalIndex_error)

lemma decode_records_error: "decode_records buf recs = Inl e \<Longrightarrow> is_parse_error e"
proof (induction buf recs rule: decode_records.induct)
  case (1 buf recs)
  from "1.prems" show ?case
    by (subst (asm) decode_records.simps)
       (auto split: if_splits sum.splits prod.splits dest: decodeToCELR_error intro: "1.IH")
qed

lemma check_types_error: "check_types z recs = Some e \<Longrightarrow> is_parse_error e"
  by (induction recs) (auto split: option.splits if_splits)

lemma DecodeToCEL_error: "DecodeToCEL buf = Inl e \<Longrightarrow> is_parse_error e"
  unfolding DecodeToCEL_def
  by (auto split: sum.splits if_splits list.splits option.splits
           dest: decode_records_error check_types_error)


lemma decode_records_bad_record:
  "buf \<noteq> [] \<Longrightarrow> decodeToCELR buf = Inl e \<Longrightarrow>
   decode_records buf acc = Inl (if e = EOF then BufferEndsUnexpectedly else e)"
  by (subst decode_records.simps) simp

lemma DecodeToCEL_loop_error: "decode_records buf [] = Inl e \<Longrightarrow> DecodeToCEL buf = Inl e"
  by (simp add: DecodeToCEL_def)

lemma decodeToCELR_truncated: "tlv_truncated buf \<Longrightarrow> decodeToCELR buf = Inl EOF"
  by (simp add: decodeToCELR_def unmarshalFirstTLV_cases)

lemma decodeToCELR_not_recnum:
  "\<not> tlv_truncated buf \<Longrightarrow> buf ! 0 \<noteq> recnumTypeValue \<Longrightarrow>
   decodeToCELR buf = Inl (NotRecnumField (buf ! 0))"
  by (simp add: decodeToCELR_def unmarshalFirstTLV_cases unmarshalRecNum_def)

lemma decodeToCELR_after_recnum:
  "decodeToCELR (MarshalBinary (createRecNumField n) @ rest) =
     (case unmarshalFirstTLV rest of
        Inl err \<Rightarrow> Inl err
      | Inr (regIndex, buf2) \<Rightarrow>
     (case unmarshalIndex regIndex of
        Inl err \<Rightarrow> Inl err
      | Inr (indexType, pcrNum) \<Rightarrow>
     (case unmarshalFirstTLV buf2 of
        Inl err \<Rightarrow> Inl err
      | Inr (digests, buf3) \<Rightarrow>
     (case unmarshalDigests digests of
        Inl err \<Rightarrow> Inl err
      | Inr digestsMap \<Rightarrow>
     (case unmarshalFirstTLV buf3 of
        Inl err \<Rightarrow> Inl err
      | Inr (contentTlv, buf4) \<Rightarrow>
          Inr (\<lparr>RecNum = n, Index = pcrNum, IndexType = indexType,
                Digests = digestsMap, Content = contentTlv\<rparr>, buf4))))))"
proof -
  have l: "length (Value (createRecNumField n)) < 2 ^ 32"
    by (simp add: createRecNumField_def)
  show ?thesis
    by (simp add: decodeToCELR_def unmarshalFirstTLV_Marshal [OF l] unmarshalRecNum_create)
qed


lemma MarshalBinary_append_nonempty: "MarshalBinary t @ rest \<noteq> []"
  by (simp add: MarshalBinary_def)

lemma unmarshalDigests_loop_known:
  assumes "length (Value u) < 2 ^ 32" and "AlgorithmHash (unat (Type u)) = Inr h"
  shows "unmarshalDigests_loop (MarshalBinary u @ rest) m =
           unmarshalDigests_loop rest (m(h \<mapsto> Value u))"
  by (subst unmarshalDigests_loop.simps)
     (simp add: MarshalBinary_append_nonempty unmarshalFirstTLV_Marshal [OF assms(1)] assms(2))

lemma unmarshalDigests_loop_fields:
  "\<forall>u \<in> set ts. length (Value u) < 2 ^ 32 \<and> (\<exists>h. AlgorithmHash (unat (Type u)) = Inr h) \<Longrightarrow>
   \<exists>m'. \<forall>rest. unmarshalDigests_loop (concat (map MarshalBinary ts) @ rest) m =
                 unmarshalDigests_loop rest m'"
proof (induction ts arbitrary: m)
  case Nil
  then show ?case by auto
next
  case (Cons u ts)
  from Cons.prems obtain h where l: "length (Value u) < 2 ^ 32"
    and h: "AlgorithmHash (unat (Type u)) = Inr h" by auto
  from Cons.prems have "\<forall>u \<in> set ts. length (Value u) < 2 ^ 32 \<and>
      (\<exists>h. AlgorithmHash (unat (Type u)) = Inr h)" by simp
  from Cons.IH [OF this, of "m(h \<mapsto> Value u)"] obtain m' where
    m': "\<And>rest. unmarshalDigests_loop (concat (map MarshalBinary ts) @ rest) (m(h \<mapsto> Value u)) =
           unmarshalDigests_loop rest m'" by blast
  show ?case
    by (rule exI [of _ m']) (simp add: unmarshalDigests_loop_known [OF l h] m')
qed

lemma unmarshalDigests_loop_truncated:
  "bad \<noteq> [] \<Longrightarrow> tlv_truncated bad \<Longrightarrow> unmarshalDigests_loop bad m = Inl BufferEndsUnexpectedly"
  by (subst unmarshalDigests_loop.simps) (simp add: unmarshalFirstTLV_cases)

lemma unmarshalDigests_loop_unknown:
  assumes "length (Value u) < 2 ^ 32" and "\<nexists>h. AlgorithmHash (unat (Type u)) = Inr h"
  shows "unmarshalDigests_loop (MarshalBinary u @ rest) m =
           Inl (HashNotSupported (unat (Type u)))"
proof -
  from assms(2) have "AlgorithmHash (unat (Type u)) = Inl (HashNotSupported (unat (Type u)))"
    by (auto simp: AlgorithmHash_def split: if_splits)
  then show ?thesis
    by (subst unmarshalDigests_loop.simps)
       (simp add: MarshalBinary_append_nonempty unmarshalFirstTLV_Marshal [OF assms(1)])
qed

lemma decodeToCELR_after_index:
  assumes "ity = PCRType \<or> ity = CCMRType"
  shows "decodeToCELR (MarshalBinary (createRecNumField n)
                       @ MarshalBinary (createIndexField ity i) @ rest) =
     (case unmarshalFirstTLV rest of
        Inl err \<Rightarrow> Inl err
      | Inr (digests, buf3) \<Rightarrow>
     (case unmarshalDigests digests of
        Inl err \<Rightarrow> Inl err
      | Inr digestsMap \<Rightarrow>
     (case unmarshalFirstTLV buf3 of
        Inl err \<Rightarrow> Inl err
      | Inr (contentTlv, buf4) \<Rightarrow>
          Inr (\<lparr>RecNum = n, Index = i, IndexType = ity,
                Digests = digestsMap, Content = contentTlv\<rparr>, buf4))))"
proof -
  have li: "length (Value (createIndexField ity i)) < 2 ^ 32"
    by (simp add: createIndexField_def)
  show ?thesis
    by (simp add: decodeToCELR_after_recnum unmarshalFirstTLV_Marshal [OF li]
          unmarshalIndex_create [OF assms])
qed

lemma decodeToCELR_after_digests:
  assumes ity: "ity = PCRType \<or> ity = CCMRType"
    and d: "unmarshalDigests \<lparr>Type = ty, Value = v\<rparr> = Inr m" and l: "length v < 2 ^ 32"
  shows "decodeToCELR (MarshalBinary (createRecNumField n)
                       @ MarshalBinary (createIndexField ity i)
                       @ MarshalBinary \<lparr>Type = ty, Value = v\<rparr> @ rest) =
     (case unmarshalFirstTLV rest of
        Inl err \<Rightarrow> Inl err
      | Inr (contentTlv, buf4) \<Rightarrow>
          Inr (\<lparr>RecNum = n, Index = i, IndexType = ity,
                Digests = m, Content = contentTlv\<rparr>, buf4))"
proof -
  have "length (Value \<lparr>Type = ty, Value = v\<rparr>) < 2 ^ 32" using l by simp
  from unmarshalFirstTLV_Marshal [OF this] d show ?thesis
    by (simp add: decodeToCELR_after_index [OF ity])
qed

lemma decodeToCELR_bad_digests:
  assumes ity: "ity = PCRType \<or> ity = CCMRType"
    and d: "unmarshalDigests \<lparr>Type = ty, Value = v\<rparr> = Inl e" and l: "length v < 2 ^ 32"
  shows "decodeToCELR (MarshalBinary (createRecNumField n)
                       @ MarshalBinary (createIndexField ity i)
                       @ MarshalBinary \<lparr>Type = ty, Value = v\<rparr> @ rest) = Inl e"
proof -
  have "length (Value \<lparr>Type = ty, Value = v\<rparr>) < 2 ^ 32" using l by simp
  from unmarshalFirstTLV_Marshal [OF this] d show ?thesis
    by (simp add: decodeToCELR_after_index [OF ity])
qed

lemma decodeToCELR_recnum_length:
  "length (Value t) < 2 ^ 32 \<Longrightarrow> Type t = recnumTypeValue \<Longrightarrow> length (Value t) \<noteq> 8 \<Longrightarrow>
   decodeToCELR (MarshalBinary t @ rest) = Inl (RecnumLength (length (Value t)))"
  by (simp add: decodeToCELR_def unmarshalFirstTLV_Marshal unmarshalRecNum_def)

text \<open>
  C9: \<open>DecodeToCEL\<close> is total (its two loops terminate because every TLV read consumes
  at least five bytes) and on every byte sequence it returns a log or a parse error,
  never the panic of an out-of-range slice and never the raw end-of-file. After the
  encoding \<open>pre\<close> of any well-formed log, every defect of the next record is reported
  where it occurs. A TLV that is truncated, or whose length field exceeds the bytes that
  remain, is reported as ``buffer ends unexpectedly'' at each of the four fields of the
  record (recnum, index, digests, content) and at any digest inside the digests field,
  after any number \<open>ts\<close> of digests with an algorithm that the TPM library knows. A first
  TLV that is not a recnum field, or a recnum field whose value is not eight bytes; an
  index TLV whose type is neither PCR nor CCMR, or whose value is not one byte; a third
  TLV that is not a digests field; and a digest whose algorithm identifier the TPM
  library does not know, are each reported with their own error.
\<close>

theorem DecodeToCEL_malformed:
  assumes enc: "EncodeCEL it c [] = (None, pre)"
    and types: "\<forall>r \<in> set (Recs c). IndexType r = PCRType \<or> IndexType r = CCMRType"
    and content: "\<forall>r \<in> set (Recs c). length (Value (Content r)) < 2 ^ 32"
    and once: "\<forall>r \<in> set (Recs c). visits_once it (Digests r)"
    and t: "length (Value t) < 2 ^ 32"
    and ity: "ity = PCRType \<or> ity = CCMRType"
    and ts: "\<forall>u \<in> set ts. length (Value u) < 2 ^ 32 \<and>
               (\<exists>h. AlgorithmHash (unat (Type u)) = Inr h)"
  shows "(\<forall>e. DecodeToCEL bs = Inl e \<longrightarrow> is_parse_error e) \<and>
    (buf \<noteq> [] \<and> tlv_truncated buf \<longrightarrow>
       DecodeToCEL (pre @ buf) = Inl BufferEndsUnexpectedly) \<and>
    (\<not> tlv_truncated buf \<and> buf ! 0 \<noteq> recnumTypeValue \<longrightarrow>
       DecodeToCEL (pre @ buf) = Inl (NotRecnumField (buf ! 0))) \<and>
    (Type t = recnumTypeValue \<and> length (Value t) \<noteq> 8 \<longrightarrow>
       DecodeToCEL (pre @ MarshalBinary t @ rest) = Inl (RecnumLength (length (Value t)))) \<and>
    (tlv_truncated rest \<longrightarrow>
       DecodeToCEL (pre @ MarshalBinary (createRecNumField n) @ rest) =
         Inl BufferEndsUnexpectedly) \<and>
    (Type t \<noteq> PCRType \<and> Type t \<noteq> CCMRType \<longrightarrow>
       DecodeToCEL (pre @ MarshalBinary (createRecNumField n) @ MarshalBinary t @ rest) =
         Inl (NotIndexField (Type t))) \<and>
    ((Type t = PCRType \<or> Type t = CCMRType) \<and> length (Value t) \<noteq> 1 \<longrightarrow>
       DecodeToCEL (pre @ MarshalBinary (createRecNumField n) @ MarshalBinary t @ rest) =
         Inl (IndexLength (length (Value t)))) \<and>
    (tlv_truncated rest \<longrightarrow>
       DecodeToCEL (pre @ MarshalBinary (createRecNumField n)
                        @ MarshalBinary (createIndexField ity i) @ rest) =
         Inl BufferEndsUnexpectedly) \<and>
    (Type t \<noteq> digestsTypeValue \<longrightarrow>
       DecodeToCEL (pre @ MarshalBinary (createRecNumField n)
                        @ MarshalBinary (createIndexField ity i)
                        @ MarshalBinary t @ rest) = Inl NotDigestsField) \<and>
    (bad \<noteq> [] \<and> tlv_truncated bad \<and>
     length (concat (map MarshalBinary ts) @ bad) < 2 ^ 32 \<longrightarrow>
       DecodeToCEL (pre @ MarshalBinary (createRecNumField n)
                        @ MarshalBinary (createIndexField ity i)
                        @ MarshalBinary \<lparr>Type = digestsTypeValue,
                                          Value = concat (map MarshalBinary ts) @ bad\<rparr>
                        @ rest) = Inl BufferEndsUnexpectedly) \<and>
    ((\<nexists>h. AlgorithmHash (unat (Type t)) = Inr h) \<and>
     length (concat (map MarshalBinary ts) @ MarshalBinary t @ bad) < 2 ^ 32 \<longrightarrow>
       DecodeToCEL (pre @ MarshalBinary (createRecNumField n)
                        @ MarshalBinary (createIndexField ity i)
                        @ MarshalBinary \<lparr>Type = digestsTypeValue,
                            Value = concat (map MarshalBinary ts) @ MarshalBinary t @ bad\<rparr>
                        @ rest) = Inl (HashNotSupported (unat (Type t)))) \<and>
    (tlv_truncated rest \<and> length (concat (map MarshalBinary ts)) < 2 ^ 32 \<longrightarrow>
       DecodeToCEL (pre @ MarshalBinary (createRecNumField n)
                        @ MarshalBinary (createIndexField ity i)
                        @ MarshalBinary \<lparr>Type = digestsTypeValue,
                                          Value = concat (map MarshalBinary ts)\<rparr>
                        @ rest) = Inl BufferEndsUnexpectedly)"
proof -
  have ok: "\<forall>r \<in> set (Recs c). (IndexType r = PCRType \<or> IndexType r = CCMRType) \<and>
      length (Value (Content r)) < 2 ^ 32 \<and> visits_once it (Digests r)"
    using types content once by auto
  from enc have "encode_records it (Recs c) [] = (None, pre)" by (simp add: EncodeCEL_def)
  from encode_records_decoded_append [OF this ok]
  have skip: "decode_records (pre @ rest) [] = decode_records rest (Recs c)" for rest
    by auto
  have bad: "DecodeToCEL (pre @ b) = Inl (if e = EOF then BufferEndsUnexpectedly else e)"
    if "b \<noteq> []" and "decodeToCELR b = Inl e" for b e
    using decode_records_bad_record [OF that, of "Recs c"]
    by (intro DecodeToCEL_loop_error) (simp add: skip)
  from unmarshalDigests_loop_fields [OF ts, of Map.empty] obtain m' where
    m': "\<And>rest. unmarshalDigests_loop (concat (map MarshalBinary ts) @ rest) Map.empty =
           unmarshalDigests_loop rest m'" by blast
  have c1: "\<forall>e. DecodeToCEL bs = Inl e \<longrightarrow> is_parse_error e"
    using DecodeToCEL_error by blast
  have c2: "buf \<noteq> [] \<and> tlv_truncated buf \<longrightarrow>
       DecodeToCEL (pre @ buf) = Inl BufferEndsUnexpectedly"
    using bad [of buf EOF] decodeToCELR_truncated [of buf] by simp
  have c3: "\<not> tlv_truncated buf \<and> buf ! 0 \<noteq> recnumTypeValue \<longrightarrow>
       DecodeToCEL (pre @ buf) = Inl (NotRecnumField (buf ! 0))"
  proof
    assume h: "\<not> tlv_truncated buf \<and> buf ! 0 \<noteq> recnumTypeValue"
    then have "buf \<noteq> []" by (auto simp: tlv_truncated_def)
    from bad [OF this decodeToCELR_not_recnum] h
    show "DecodeToCEL (pre @ buf) = Inl (NotRecnumField (buf ! 0))" by simp
  qed
  have c4: "Type t = recnumTypeValue \<and> length (Value t) \<noteq> 8 \<longrightarrow>
       DecodeToCEL (pre @ MarshalBinary t @ rest) = Inl (RecnumLength (length (Value t)))"
    using bad [of "MarshalBinary t @ rest" "RecnumLength (length (Value t))"]
    by (simp add: MarshalBinary_append_nonempty decodeToCELR_recnum_length [OF t])
  have c5: "tlv_truncated rest \<longrightarrow>
       DecodeToCEL (pre @ MarshalBinary (createRecNumField n) @ rest) =
         Inl BufferEndsUnexpectedly"
    using bad [of "MarshalBinary (createRecNumField n) @ rest" EOF]
    by (simp add: decodeToCELR_after_recnum unmarshalFirstTLV_cases)
  have c6: "Type t \<noteq> PCRType \<and> Type t \<noteq> CCMRType \<longrightarrow>
       DecodeToCEL (pre @ MarshalBinary (createRecNumField n) @ MarshalBinary t @ rest) =
         Inl (NotIndexField (Type t))"
    using bad [of "MarshalBinary (createRecNumField n) @ MarshalBinary t @ rest"
                  "NotIndexField (Type t)"]
    by (simp add: decodeToCELR_after_recnum unmarshalFirstTLV_Marshal [OF t] unmarshalIndex_def)
  have c7: "(Type t = PCRType \<or> Type t = CCMRType) \<and> length (Value t) \<noteq> 1 \<longrightarrow>
       DecodeToCEL (pre @ MarshalBinary (createRecNumField n) @ MarshalBinary t @ rest) =
         Inl (IndexLength (length (Value t)))"
    using bad [of "MarshalBinary (createRecNumField n) @ MarshalBinary t @ rest"
                  "IndexLength (length (Value t))"] t
    by (auto simp: decodeToCELR_after_recnum unmarshalFirstTLV_Marshal [OF t] unmarshalIndex_def)
  have c8: "tlv_truncated rest \<longrightarrow>
       DecodeToCEL (pre @ MarshalBinary (createRecNumField n)
                        @ MarshalBinary (createIndexField ity i) @ rest) =
         Inl BufferEndsUnexpectedly"
    using bad [of "MarshalBinary (createRecNumField n)
                   @ MarshalBinary (createIndexField ity i) @ rest" EOF]
    by (simp add: decodeToCELR_after_index [OF ity] unmarshalFirstTLV_cases)
  have c9: "Type t \<noteq> digestsTypeValue \<longrightarrow>
       DecodeToCEL (pre @ MarshalBinary (createRecNumField n)
                        @ MarshalBinary (createIndexField ity i)
                        @ MarshalBinary t @ rest) = Inl NotDigestsField"
    using bad [of "MarshalBinary (createRecNumField n)
                   @ MarshalBinary (createIndexField ity i)
                   @ MarshalBinary t @ rest" NotDigestsField]
    by (simp add: decodeToCELR_after_index [OF ity] unmarshalFirstTLV_Marshal [OF t]
          unmarshalDigests_def)
  have c10: "bad \<noteq> [] \<and> tlv_truncated bad \<and>
     length (concat (map MarshalBinary ts) @ bad) < 2 ^ 32 \<longrightarrow>
       DecodeToCEL (pre @ MarshalBinary (createRecNumField n)
                        @ MarshalBinary (createIndexField ity i)
                        @ MarshalBinary \<lparr>Type = digestsTypeValue,
                                          Value = concat (map MarshalBinary ts) @ bad\<rparr>
                        @ rest) = Inl BufferEndsUnexpectedly"
  proof
    assume h: "bad \<noteq> [] \<and> tlv_truncated bad \<and>
       length (concat (map MarshalBinary ts) @ bad) < 2 ^ 32"
    then have d: "unmarshalDigests \<lparr>Type = digestsTypeValue,
                     Value = concat (map MarshalBinary ts) @ bad\<rparr> = Inl BufferEndsUnexpectedly"
      by (simp add: unmarshalDigests_def m' unmarshalDigests_loop_truncated)
    from h have l: "length (concat (map MarshalBinary ts) @ bad) < 2 ^ 32" by simp
    from bad [OF _ decodeToCELR_bad_digests [OF ity d l, of n i rest]]
    show "DecodeToCEL (pre @ MarshalBinary (createRecNumField n)
                        @ MarshalBinary (createIndexField ity i)
                        @ MarshalBinary \<lparr>Type = digestsTypeValue,
                                          Value = concat (map MarshalBinary ts) @ bad\<rparr>
                        @ rest) = Inl BufferEndsUnexpectedly"
      by (simp add: MarshalBinary_append_nonempty)
  qed
  have c11: "(\<nexists>h. AlgorithmHash (unat (Type t)) = Inr h) \<and>
     length (concat (map MarshalBinary ts) @ MarshalBinary t @ bad) < 2 ^ 32 \<longrightarrow>
       DecodeToCEL (pre @ MarshalBinary (createRecNumField n)
                        @ MarshalBinary (createIndexField ity i)
                        @ MarshalBinary \<lparr>Type = digestsTypeValue,
                            Value = concat (map MarshalBinary ts) @ MarshalBinary t @ bad\<rparr>
                        @ rest) = Inl (HashNotSupported (unat (Type t)))"
  proof
    assume h: "(\<nexists>h. AlgorithmHash (unat (Type t)) = Inr h) \<and>
       length (concat (map MarshalBinary ts) @ MarshalBinary t @ bad) < 2 ^ 32"
    then have u: "\<nexists>h. AlgorithmHash (unat (Type t)) = Inr h" by simp
    have d: "unmarshalDigests \<lparr>Type = digestsTypeValue,
                Value = concat (map MarshalBinary ts) @ MarshalBinary t @ bad\<rparr> =
             Inl (HashNotSupported (unat (Type t)))"
      by (simp add: unmarshalDigests_def m' unmarshalDigests_loop_unknown [OF t u])
    from h have l: "length (concat (map MarshalBinary ts) @ MarshalBinary t @ bad) < 2 ^ 32"
      by simp
    from bad [OF _ decodeToCELR_bad_digests [OF ity d l, of n i rest]]
    show "DecodeToCEL (pre @ MarshalBinary (createRecNumField n)
                        @ MarshalBinary (createIndexField ity i)
                        @ MarshalBinary \<lparr>Type = digestsTypeValue,
                            Value = concat (map MarshalBinary ts) @ MarshalBinary t @ bad\<rparr>
                        @ rest) = Inl (HashNotSupported (unat (Type t)))"
      by (simp add: MarshalBinary_append_nonempty)
  qed
  have c12: "tlv_truncated rest \<and> length (concat (map MarshalBinary ts)) < 2 ^ 32 \<longrightarrow>
       DecodeToCEL (pre @ MarshalBinary (createRecNumField n)
                        @ MarshalBinary (createIndexField ity i)
                        @ MarshalBinary \<lparr>Type = digestsTypeValue,
                                          Value = concat (map MarshalBinary ts)\<rparr>
                        @ rest) = Inl BufferEndsUnexpectedly"
  proof
    assume h: "tlv_truncated rest \<and> length (concat (map MarshalBinary ts)) < 2 ^ 32"
    have d: "unmarshalDigests \<lparr>Type = digestsTypeValue,
                Value = concat (map MarshalBinary ts)\<rparr> = Inr m'"
      using m' [of "[]"]
      by (simp add: unmarshalDigests_def unmarshalDigests_loop.simps [of "[]"])
    from h have l: "length (concat (map MarshalBinary ts)) < 2 ^ 32" by simp
    from h have e: "decodeToCELR (MarshalBinary (createRecNumField n)
                        @ MarshalBinary (createIndexField ity i)
                        @ MarshalBinary \<lparr>Type = digestsTypeValue,
                                          Value = concat (map MarshalBinary ts)\<rparr>
                        @ rest) = Inl EOF"
      by (simp add: decodeToCELR_after_digests [OF ity d l] unmarshalFirstTLV_cases)
    from bad [OF _ e]
    show "DecodeToCEL (pre @ MarshalBinary (createRecNumField n)
                        @ MarshalBinary (createIndexField ity i)
                        @ MarshalBinary \<lparr>Type = digestsTypeValue,
                                          Value = concat (map MarshalBinary ts)\<rparr>
                        @ rest) = Inl BufferEndsUnexpectedly"
      by (simp add: MarshalBinary_append_nonempty)
  qed
  from c1 c2 c3 c4 c5 c6 c7 c8 c9 c10 c11 c12 show ?thesis by blast
qed

theorem DecodeToCEL_malformed_witness:
  "fst (EncodeCEL hash_order two_record_log []) = None \<and>
   DecodeToCEL (snd (EncodeCEL hash_order two_record_log []) @ [0, 0]) =
     Inl BufferEndsUnexpectedly \<and>
   DecodeToCEL (snd (EncodeCEL hash_order two_record_log []) @ [0, 0, 0, 0, 9, 1]) =
     Inl BufferEndsUnexpectedly \<and>
   DecodeToCEL (snd (EncodeCEL hash_order two_record_log []) @ [7, 0, 0, 0, 0]) =
     Inl (NotRecnumField 7) \<and>
   DecodeToCEL (snd (EncodeCEL hash_order two_record_log [])
                @ MarshalBinary \<lparr>Type = 0, Value = [1, 2]\<rparr> @ []) = Inl (RecnumLength 2) \<and>
   DecodeToCEL (snd (EncodeCEL hash_order two_record_log [])
                @ MarshalBinary (createRecNumField 2) @ [1, 0, 0]) =
     Inl BufferEndsUnexpectedly \<and>
   DecodeToCEL (snd (EncodeCEL hash_order two_record_log [])
                @ MarshalBinary (createRecNumField 2)
                @ MarshalBinary \<lparr>Type = 5, Value = [0]\<rparr> @ []) = Inl (NotIndexField 5) \<and>
   DecodeToCEL (snd (EncodeCEL hash_order two_record_log [])
                @ MarshalBinary (createRecNumField 2)
                @ MarshalBinary \<lparr>Type = 1, Value = [0, 0]\<rparr> @ []) = Inl (IndexLength 2) \<and>
   DecodeToCEL (snd (EncodeCEL hash_order two_record_log [])
                @ MarshalBinary (createRecNumField 2)
                @ MarshalBinary (createIndexField PCRType 3) @ [3, 0, 0, 0, 5, 1]) =
     Inl BufferEndsUnexpectedly \<and>
   DecodeToCEL (snd (EncodeCEL hash_order two_record_log [])
                @ MarshalBinary (createRecNumField 2)
                @ MarshalBinary (createIndexField PCRType 3)
                @ MarshalBinary \<lparr>Type = 4, Value = []\<rparr> @ []) = Inl NotDigestsField \<and>
   DecodeToCEL (snd (EncodeCEL hash_order two_record_log [])
                @ MarshalBinary (createRecNumField 2)
                @ MarshalBinary (createIndexField PCRType 3)
                @ MarshalBinary
                    \<lparr>Type = digestsTypeValue,
                     Value = concat (map MarshalBinary [\<lparr>Type = 4, Value = replicate 20 7\<rparr>])
                             @ [11, 0, 0, 0, 32, 9]\<rparr>
                @ MarshalBinary \<lparr>Type = 222, Value = []\<rparr>) = Inl BufferEndsUnexpectedly \<and>
   DecodeToCEL (snd (EncodeCEL hash_order two_record_log [])
                @ MarshalBinary (createRecNumField 2)
                @ MarshalBinary (createIndexField PCRType 3)
                @ MarshalBinary
                    \<lparr>Type = digestsTypeValue,
                     Value = concat (map MarshalBinary [\<lparr>Type = 4, Value = replicate 20 7\<rparr>])
                             @ MarshalBinary \<lparr>Type = 5, Value = [1]\<rparr> @ []\<rparr>
                @ MarshalBinary \<lparr>Type = 222, Value = []\<rparr>) = Inl (HashNotSupported 5) \<and>
   DecodeToCEL (snd (EncodeCEL hash_order two_record_log [])
                @ MarshalBinary (createRecNumField 2)
                @ MarshalBinary (createIndexField PCRType 3)
                @ MarshalBinary
                    \<lparr>Type = digestsTypeValue,
                     Value = concat (map MarshalBinary [\<lparr>Type = 4, Value = replicate 20 7\<rparr>])\<rparr>
                @ [222, 0, 0, 0, 4, 1]) = Inl BufferEndsUnexpectedly"
proof -
  have dg: "\<forall>r \<in> set (Recs two_record_log). \<forall>h d. Digests r h = Some d \<longrightarrow>
       length d = hash_size h \<and> h \<in> {SHA1, SHA256, SHA384, SHA512}"
    using cel_record_digests by (simp add: two_record_log_def)
  from encode_records_succeeds [OF dg, of hash_order "[]"]
  obtain pre where enc: "EncodeCEL hash_order two_record_log [] = (None, pre)"
    by (auto simp: EncodeCEL_def)
  have types: "\<forall>r \<in> set (Recs two_record_log). IndexType r = PCRType \<or> IndexType r = CCMRType"
    by (simp add: two_record_log_def cel_record_def)
  have content: "\<forall>r \<in> set (Recs two_record_log). length (Value (Content r)) < 2 ^ 32"
    by (simp add: two_record_log_def cel_record_def)
  have once: "\<forall>r \<in> set (Recs two_record_log). visits_once hash_order (Digests r)"
    by (simp add: visits_once_hash_order)
  have ts: "\<forall>u \<in> set [\<lparr>Type = 4, Value = replicate 20 7\<rparr>].
      length (Value u) < 2 ^ 32 \<and> (\<exists>h. AlgorithmHash (unat (Type u)) = Inr h)"
    by (simp add: AlgorithmHash_def)
  have ity: "PCRType = PCRType \<or> PCRType = CCMRType" by simp
  note inst = DecodeToCEL_malformed [OF enc types content once _ ity ts]
  have t1: "tlv_truncated [0, 0]" "tlv_truncated [0, 0, 0, 0, 9, 1]" "tlv_truncated [1, 0, 0]"
    "tlv_truncated [3, 0, 0, 0, 5, 1]" "tlv_truncated [11, 0, 0, 0, 32, 9]"
    "tlv_truncated [222, 0, 0, 0, 4, 1]"
    by (simp_all add: tlv_truncated_def)
  have t2: "\<not> tlv_truncated [7, 0, 0, 0, 0]" "[7, 0, 0, 0, 0] ! 0 \<noteq> recnumTypeValue"
    by (simp_all add: tlv_truncated_def recnumTypeValue_def)
  have t3: "\<nexists>h. AlgorithmHash (unat (Type \<lparr>Type = 5, Value = [1]\<rparr>)) = Inr h"
    by (simp add: AlgorithmHash_def)
  have a: "DecodeToCEL (pre @ [0, 0]) = Inl BufferEndsUnexpectedly"
    using inst [where t = "\<lparr>Type = 0, Value = []\<rparr>" and buf = "[0, 0]"] t1 by simp
  have b: "DecodeToCEL (pre @ [0, 0, 0, 0, 9, 1]) = Inl BufferEndsUnexpectedly"
    using inst [where t = "\<lparr>Type = 0, Value = []\<rparr>" and buf = "[0, 0, 0, 0, 9, 1]"] t1
    by simp
  have c: "DecodeToCEL (pre @ [7, 0, 0, 0, 0]) = Inl (NotRecnumField 7)"
    using inst [where t = "\<lparr>Type = 0, Value = []\<rparr>" and buf = "[7, 0, 0, 0, 0]"] t2 by simp
  have d: "DecodeToCEL (pre @ MarshalBinary \<lparr>Type = 0, Value = [1, 2]\<rparr> @ []) =
             Inl (RecnumLength 2)"
    using inst [where t = "\<lparr>Type = 0, Value = [1, 2]\<rparr>" and rest = "[]"]
    by (simp add: recnumTypeValue_def)
  have e: "DecodeToCEL (pre @ MarshalBinary (createRecNumField 2) @ [1, 0, 0]) =
             Inl BufferEndsUnexpectedly"
    using inst [where t = "\<lparr>Type = 0, Value = []\<rparr>" and rest = "[1, 0, 0]" and n = 2] t1
    by simp
  have f: "DecodeToCEL (pre @ MarshalBinary (createRecNumField 2)
                @ MarshalBinary \<lparr>Type = 5, Value = [0]\<rparr> @ []) = Inl (NotIndexField 5)"
    using inst [where t = "\<lparr>Type = 5, Value = [0]\<rparr>" and rest = "[]" and n = 2]
    by (simp add: PCRType_def CCMRType_def)
  have g: "DecodeToCEL (pre @ MarshalBinary (createRecNumField 2)
                @ MarshalBinary \<lparr>Type = 1, Value = [0, 0]\<rparr> @ []) = Inl (IndexLength 2)"
    using inst [where t = "\<lparr>Type = 1, Value = [0, 0]\<rparr>" and rest = "[]" and n = 2]
    by (simp add: PCRType_def CCMRType_def)
  have h: "DecodeToCEL (pre @ MarshalBinary (createRecNumField 2)
                @ MarshalBinary (createIndexField PCRType 3) @ [3, 0, 0, 0, 5, 1]) =
             Inl BufferEndsUnexpectedly"
    using inst [where t = "\<lparr>Type = 0, Value = []\<rparr>" and rest = "[3, 0, 0, 0, 5, 1]"
                 and n = 2 and i = 3] t1
    by simp
  have i: "DecodeToCEL (pre @ MarshalBinary (createRecNumField 2)
                @ MarshalBinary (createIndexField PCRType 3)
                @ MarshalBinary \<lparr>Type = 4, Value = []\<rparr> @ []) = Inl NotDigestsField"
    using inst [where t = "\<lparr>Type = 4, Value = []\<rparr>" and rest = "[]" and n = 2 and i = 3]
    by (simp add: digestsTypeValue_def)
  have j: "DecodeToCEL (pre @ MarshalBinary (createRecNumField 2)
                @ MarshalBinary (createIndexField PCRType 3)
                @ MarshalBinary
                    \<lparr>Type = digestsTypeValue,
                     Value = concat (map MarshalBinary [\<lparr>Type = 4, Value = replicate 20 7\<rparr>])
                             @ [11, 0, 0, 0, 32, 9]\<rparr>
                @ MarshalBinary \<lparr>Type = 222, Value = []\<rparr>) = Inl BufferEndsUnexpectedly"
    using inst [where t = "\<lparr>Type = 0, Value = []\<rparr>" and bad = "[11, 0, 0, 0, 32, 9]"
                 and rest = "MarshalBinary \<lparr>Type = 222, Value = []\<rparr>" and n = 2 and i = 3] t1
    by (simp add: MarshalBinary_def nat_be_def)
  have k: "DecodeToCEL (pre @ MarshalBinary (createRecNumField 2)
                @ MarshalBinary (createIndexField PCRType 3)
                @ MarshalBinary
                    \<lparr>Type = digestsTypeValue,
                     Value = concat (map MarshalBinary [\<lparr>Type = 4, Value = replicate 20 7\<rparr>])
                             @ MarshalBinary \<lparr>Type = 5, Value = [1]\<rparr> @ []\<rparr>
                @ MarshalBinary \<lparr>Type = 222, Value = []\<rparr>) = Inl (HashNotSupported 5)"
    using inst [where t = "\<lparr>Type = 5, Value = [1]\<rparr>" and bad = "[]"
                 and rest = "MarshalBinary \<lparr>Type = 222, Value = []\<rparr>" and n = 2 and i = 3] t3
    by (simp add: MarshalBinary_def nat_be_def)
  have l: "DecodeToCEL (pre @ MarshalBinary (createRecNumField 2)
                @ MarshalBinary (createIndexField PCRType 3)
                @ MarshalBinary
                    \<lparr>Type = digestsTypeValue,
                     Value = concat (map MarshalBinary [\<lparr>Type = 4, Value = replicate 20 7\<rparr>])\<rparr>
                @ [222, 0, 0, 0, 4, 1]) = Inl BufferEndsUnexpectedly"
    using inst [where t = "\<lparr>Type = 0, Value = []\<rparr>" and rest = "[222, 0, 0, 0, 4, 1]"
                 and n = 2 and i = 3] t1
    by (simp add: MarshalBinary_def nat_be_def)
  from a b c d e f g h i j k l show ?thesis by (simp add: enc)
qed

section \<open>GRUB extraction\<close>

lemma valid_prefixes_no_nul: "p \<in> set validPrefixes \<Longrightarrow> 0 \<notin> set p"
  by (auto simp: validPrefixes_def bytes_of_def newGrubKernelCmdlinePrefix_def
        oldGrubKernelCmdlinePrefix_def)

lemma find_prefix_None: "find_prefix ps d = None \<longleftrightarrow> (\<forall>p \<in> set ps. \<not> HasPrefix d p)"
  by (induction ps) auto

lemma find_prefix_Some: "find_prefix ps d = Some n \<Longrightarrow> \<exists>p \<in> set ps. HasPrefix d p \<and> n = length p"
  by (induction ps) (auto split: if_splits)

lemma find_prefix_valid: "find_prefix validPrefixes d = None \<longleftrightarrow> \<not> has_valid_prefix d"
  by (simp add: find_prefix_None has_valid_prefix_def)

lemma tpm_grub_events_rejects:
  assumes "\<exists>e \<in> set events. MRIndex e = 8 \<and> UntrustedType e \<noteq> EventTag \<and>
             (UntrustedType e \<noteq> Ipl \<or> \<not> has_valid_prefix (RawData e))"
  shows "\<exists>err. tpm_grub_events H hash events eventNum files commands = Inl err"
  using assms
proof (induction events arbitrary: eventNum files commands)
  case Nil
  then show ?case by simp
next
  case (Cons event rest)
  show ?case
  proof (cases "MRIndex event = 8 \<and> UntrustedType event \<noteq> EventTag \<and>
             (UntrustedType event \<noteq> Ipl \<or> \<not> has_valid_prefix (RawData event))")
    case True
    then show ?thesis by (auto simp: find_prefix_valid [symmetric])
  next
    case False
    with Cons.prems have "\<exists>e \<in> set rest. MRIndex e = 8 \<and> UntrustedType e \<noteq> EventTag \<and>
             (UntrustedType e \<noteq> Ipl \<or> \<not> has_valid_prefix (RawData e))" by auto
    from Cons.IH [OF this] show ?thesis
      by (simp split: option.splits)
  qed
qed

lemma rtmr_grub_events_rejects:
  assumes "\<exists>e \<in> set events. MRIndex e = 3 \<and> UntrustedType e \<noteq> EventTag \<and>
             UntrustedType e \<noteq> Ipl"
  shows "\<exists>err. rtmr_grub_events H hash events eventNum commands = Inl err"
  using assms
proof (induction events arbitrary: eventNum commands)
  case Nil
  then show ?case by simp
next
  case (Cons event rest)
  show ?case
  proof (cases "MRIndex event = 3 \<and> UntrustedType event \<noteq> EventTag \<and>
             UntrustedType event \<noteq> Ipl")
    case True
    then show ?thesis by auto
  next
    case False
    with Cons.prems have "\<exists>e \<in> set rest. MRIndex e = 3 \<and> UntrustedType e \<noteq> EventTag \<and>
             UntrustedType e \<noteq> Ipl" by auto
    from Cons.IH [OF this] show ?thesis
      by (simp split: option.splits)
  qed
qed

lemma rtmr_grub_events_eventNum:
  "rtmr_grub_events H hash events n commands = Inr cs \<Longrightarrow>
   rtmr_grub_events H hash events m commands = Inr cs"
proof (induction events arbitrary: n m commands)
  case Nil
  then show ?case by simp
next
  case (Cons event rest)
  from Cons.prems show ?case
    by (auto simp: verify_grub_command_def Let_def split: if_splits option.splits
             intro: Cons.IH)
qed

lemma rtmr_grub_events_append:
  "rtmr_grub_events H hash (pre @ rest) n commands =
     (case rtmr_grub_events H hash pre n commands of
        Inl err \<Rightarrow> Inl err
      | Inr cs \<Rightarrow> rtmr_grub_events H hash rest (n + length pre) cs)"
  by (induction pre arbitrary: n commands) (auto split: option.splits sum.splits)

lemma tpm_grub_events_append:
  "tpm_grub_events H hash (pre @ rest) n files commands =
     (case tpm_grub_events H hash pre n files commands of
        Inl err \<Rightarrow> Inl err
      | Inr (fs, cs) \<Rightarrow> tpm_grub_events H hash rest (n + length pre) fs cs)"
  by (induction pre arbitrary: n files commands) (auto split: option.splits sum.splits)

lemma sample_prefixes:
  "find_prefix validPrefixes ls_command = Some 10"
  "find_prefix validPrefixes (ls_command @ [0]) = Some 10"
  "find_prefix validPrefixes (ls_command @ [0xFF]) = Some 10"
  "find_prefix validPrefixes file_path = None"
  "find_prefix validPrefixes (file_path @ [0]) = None"
  "find_prefix validPrefixes (file_path @ [0xFF]) = None"
  by (simp_all add: validPrefixes_def bytes_of_def newGrubKernelCmdlinePrefix_def
        oldGrubKernelCmdlinePrefix_def HasPrefix_def ls_command_def file_path_def)

lemma sample_suffixes:
  "drop 10 ls_command = bytes_of ''ls''"
  "drop 10 (ls_command @ [0]) = bytes_of ''ls'' @ [0]"
  "drop 10 (ls_command @ [0xFF]) = bytes_of ''ls'' @ [0xFF]"
  by (simp_all add: ls_command_def bytes_of_def)

lemma sample_hashes:
  "toy_hash SHA256 (bytes_of ''ls'') = [2, 223, 32]"
  "toy_hash SHA256 (bytes_of ''ls'' @ [0]) = [3, 223, 32]"
  "toy_hash SHA256 (bytes_of ''ls'' @ [0xFF]) = [3, 222, 32]"
  by (simp_all add: toy_hash_def bytes_of_def)

lemma sample_grub_runs:
  "GrubStateFromRTMRLog toy_hash SHA256 [grub_event 3 Ipl ls_command [2, 223, 32]] =
     Inr \<lparr>Files = [], Commands = [ls_command]\<rparr>"
  "GrubStateFromTPMLog toy_hash SHA256 [grub_event 8 Ipl (ls_command @ [0]) [2, 223, 32]] =
     Inr \<lparr>Files = [], Commands = [ls_command @ [0]]\<rparr>"
  "GrubStateFromRTMRLog toy_hash SHA256 [grub_event 3 Ipl (ls_command @ [0]) [3, 223, 32]] =
     Inr \<lparr>Files = [], Commands = [ls_command @ [0]]\<rparr>"
  by (simp_all add: GrubStateFromRTMRLog_def GrubStateFromTPMLog_def grub_event_def
        verify_grub_command_def verifyDataDigest_def verifyNullTerminatedDataDigest_def
        Ipl_def EventTag_def Let_def validPrefixes_def bytes_of_def
        newGrubKernelCmdlinePrefix_def oldGrubKernelCmdlinePrefix_def HasPrefix_def
        ls_command_def toy_hash_def)

lemmas grub_eval =
  GrubStateFromRTMRLog_def GrubStateFromTPMLog_def grub_event_def
  verify_grub_command_def verifyDataDigest_def verifyNullTerminatedDataDigest_def
  Ipl_def EventTag_def EFIAction_def Let_def validPrefixes_def bytes_of_def
  newGrubKernelCmdlinePrefix_def oldGrubKernelCmdlinePrefix_def HasPrefix_def
  ls_command_def file_path_def toy_hash_def

text \<open>
  C6 (amended): in a TPM log, an event on the GRUB commands register (PCR 8) that is not
  an \<open>EV_EVENT_TAG\<close> must be an \<open>EV_IPL\<close> whose payload begins with a recognized
  prefix: if some event violates either requirement, \<open>GrubStateFromTPMLog\<close> returns an
  error. In a CC log, an event on the GRUB register (measurement register 3) that is
  neither an \<open>EV_EVENT_TAG\<close> nor an \<open>EV_IPL\<close> makes \<open>GrubStateFromRTMRLog\<close> return
  an error; an \<open>EV_IPL\<close> without a recognized prefix is skipped: a log that is accepted
  without it is accepted with it, with the same state.
\<close>

theorem grub_commands_checked:
  "((\<exists>e \<in> set events. MRIndex e = 8 \<and> UntrustedType e \<noteq> EventTag \<and>
        (UntrustedType e \<noteq> Ipl \<or> \<not> has_valid_prefix (RawData e))) \<longrightarrow>
      (\<exists>err. GrubStateFromTPMLog H hash events = Inl err)) \<and>
   ((\<exists>e \<in> set events. MRIndex e = 3 \<and> UntrustedType e \<noteq> EventTag \<and>
        UntrustedType e \<noteq> Ipl) \<longrightarrow>
      (\<exists>err. GrubStateFromRTMRLog H hash events = Inl err)) \<and>
   (MRIndex e = 3 \<and> UntrustedType e = Ipl \<and> \<not> has_valid_prefix (RawData e) \<and>
    GrubStateFromRTMRLog H hash (pre @ post) = Inr st \<longrightarrow>
      GrubStateFromRTMRLog H hash (pre @ e # post) = Inr st)"
proof (intro conjI impI)
  assume "\<exists>e \<in> set events. MRIndex e = 8 \<and> UntrustedType e \<noteq> EventTag \<and>
        (UntrustedType e \<noteq> Ipl \<or> \<not> has_valid_prefix (RawData e))"
  from tpm_grub_events_rejects [OF this, of H hash 0 "[]" "[]"]
  show "\<exists>err. GrubStateFromTPMLog H hash events = Inl err"
    by (auto simp: GrubStateFromTPMLog_def)
next
  assume "\<exists>e \<in> set events. MRIndex e = 3 \<and> UntrustedType e \<noteq> EventTag \<and>
        UntrustedType e \<noteq> Ipl"
  from rtmr_grub_events_rejects [OF this, of H hash 0 "[]"]
  show "\<exists>err. GrubStateFromRTMRLog H hash events = Inl err"
    by (auto simp: GrubStateFromRTMRLog_def)
next
  assume h: "MRIndex e = 3 \<and> UntrustedType e = Ipl \<and> \<not> has_valid_prefix (RawData e) \<and>
    GrubStateFromRTMRLog H hash (pre @ post) = Inr st"
  then obtain cs where cs: "rtmr_grub_events H hash (pre @ post) 0 [] = Inr cs"
    by (auto simp: GrubStateFromRTMRLog_def split: sum.splits)
  then obtain cs1 where pre: "rtmr_grub_events H hash pre 0 [] = Inr cs1"
    and post: "rtmr_grub_events H hash post (length pre) cs1 = Inr cs"
    by (auto simp: rtmr_grub_events_append split: sum.splits)
  from h have e: "MRIndex e = 3" "UntrustedType e = Ipl"
      "find_prefix validPrefixes (RawData e) = None"
    by (simp_all add: find_prefix_valid)
  have "rtmr_grub_events H hash (pre @ e # post) 0 [] = Inr cs"
    using rtmr_grub_events_eventNum [OF post, of "Suc (length pre)"]
    by (simp add: rtmr_grub_events_append pre e Ipl_def EventTag_def)
  with h cs show "GrubStateFromRTMRLog H hash (pre @ e # post) = Inr st"
    by (simp add: GrubStateFromRTMRLog_def)
qed

theorem grub_commands_checked_witness:
  "(\<exists>err. GrubStateFromTPMLog toy_hash SHA256 [grub_event 8 Ipl file_path []] = Inl err) \<and>
   (\<exists>err. GrubStateFromTPMLog toy_hash SHA256 [grub_event 8 EFIAction ls_command []] = Inl err) \<and>
   (\<exists>err. GrubStateFromRTMRLog toy_hash SHA256 [grub_event 3 EFIAction ls_command []] = Inl err) \<and>
   GrubStateFromRTMRLog toy_hash SHA256
     [grub_event 3 Ipl file_path [], grub_event 3 Ipl ls_command [2, 223, 32]] =
     Inr \<lparr>Files = [], Commands = [ls_command]\<rparr>"
proof -
  have np: "\<not> has_valid_prefix file_path"
    by (simp add: find_prefix_valid [symmetric] sample_prefixes)
  have a: "\<exists>err. GrubStateFromTPMLog toy_hash SHA256 [grub_event 8 Ipl file_path []] = Inl err"
    using grub_commands_checked [of "[grub_event 8 Ipl file_path []]" toy_hash SHA256] np
    by (simp add: grub_event_def Ipl_def EventTag_def)
  have b: "\<exists>err. GrubStateFromTPMLog toy_hash SHA256 [grub_event 8 EFIAction ls_command []] = Inl err"
    using grub_commands_checked [of "[grub_event 8 EFIAction ls_command []]" toy_hash SHA256]
    by (simp add: grub_event_def Ipl_def EventTag_def EFIAction_def)
  have c: "\<exists>err. GrubStateFromRTMRLog toy_hash SHA256 [grub_event 3 EFIAction ls_command []] = Inl err"
    using grub_commands_checked [of "[grub_event 3 EFIAction ls_command []]" toy_hash SHA256]
    by (simp add: grub_event_def Ipl_def EventTag_def EFIAction_def)
  have d: "GrubStateFromRTMRLog toy_hash SHA256
     [grub_event 3 Ipl file_path [], grub_event 3 Ipl ls_command [2, 223, 32]] =
     Inr \<lparr>Files = [], Commands = [ls_command]\<rparr>"
    using grub_commands_checked [of _ _ _ "grub_event 3 Ipl file_path []" "[]"
        "[grub_event 3 Ipl ls_command [2, 223, 32]]" "\<lparr>Files = [], Commands = [ls_command]\<rparr>",
        where H = toy_hash and hash = SHA256]
      np sample_grub_runs(1)
    by (simp add: grub_event_def)
  from a b c d show ?thesis by blast
qed

text \<open>
  C6 as stated fails for CC logs: an \<open>EV_IPL\<close> event on the GRUB register whose payload
  has no recognized prefix is passed over, and the extraction succeeds with the commands
  of the other events.
\<close>

theorem rtmr_unprefixed_event_skipped:
  "MRIndex (grub_event 3 Ipl file_path []) = 3 \<and>
   UntrustedType (grub_event 3 Ipl file_path []) = Ipl \<and>
   Ipl \<noteq> EventTag \<and>
   \<not> has_valid_prefix (RawData (grub_event 3 Ipl file_path [])) \<and>
   GrubStateFromRTMRLog toy_hash SHA256
     [grub_event 3 Ipl file_path [], grub_event 3 Ipl ls_command [2, 223, 32]] =
     Inr \<lparr>Files = [], Commands = [ls_command]\<rparr>"
proof -
  have "\<not> has_valid_prefix file_path"
    by (simp add: find_prefix_valid [symmetric] sample_prefixes)
  moreover have "GrubStateFromRTMRLog toy_hash SHA256
     [grub_event 3 Ipl file_path [], grub_event 3 Ipl ls_command [2, 223, 32]] =
     Inr \<lparr>Files = [], Commands = [ls_command]\<rparr>"
    by (simp add: grub_eval)
  ultimately show ?thesis by (simp add: grub_event_def Ipl_def EventTag_def)
qed

section \<open>GRUB extraction and the NUL terminator\<close>

lemma verify_grub_command_accepts:
  "verify_grub_command H hash k n e = None \<Longrightarrow>
   ReplayedDigest e = H hash (drop n (RawData e)) \<or>
   ReplayedDigest e = H hash (butlast (drop n (RawData e)))"
  by (auto simp: verify_grub_command_def verifyDataDigest_def verifyNullTerminatedDataDigest_def
        Let_def split: if_splits option.splits)

lemma verify_grub_command_rejects:
  "last (RawData e) \<noteq> 0 \<Longrightarrow> ReplayedDigest e \<noteq> H hash (drop n (RawData e)) \<Longrightarrow>
   \<exists>err. verify_grub_command H hash k n e = Some err"
  by (auto simp: verify_grub_command_def verifyDataDigest_def Let_def)

lemma has_valid_prefix_mutated:
  assumes "has_valid_prefix (d @ [0])"
  shows "has_valid_prefix (d @ [b])"
proof -
  from assms obtain p where p: "p \<in> set validPrefixes" "HasPrefix (d @ [0]) p"
    by (auto simp: has_valid_prefix_def)
  have "length p \<le> length d"
  proof (rule ccontr)
    assume "\<not> length p \<le> length d"
    with p(2) have "p = d @ [0]" by (auto simp: HasPrefix_def)
    then have "0 \<in> set p" by simp
    with valid_prefixes_no_nul [OF p(1)] show False by simp
  qed
  with p(2) have "HasPrefix (d @ [b]) p" by (auto simp: HasPrefix_def)
  with p(1) show ?thesis by (auto simp: has_valid_prefix_def)
qed

lemma mutated_command_rejected:
  assumes ok: "verify_grub_command H hash k n e = None"
    and n: "find_prefix validPrefixes (RawData e) = Some n"
    and nul: "RawData e = d @ [0]"
    and b: "b \<noteq> 0"
    and cf: "H hash (command_suffix (d @ [b])) \<noteq> H hash (command_suffix (d @ [0]))"
       "H hash (command_suffix (d @ [b])) \<noteq> H hash (butlast (command_suffix (d @ [0])))"
    and n': "find_prefix validPrefixes (d @ [b]) = Some n'"
  shows "\<exists>err. verify_grub_command H hash k' n' (e\<lparr>RawData := d @ [b]\<rparr>) = Some err"
proof -
  have s0: "command_suffix (d @ [0]) = drop n (RawData e)"
    using n nul by (simp add: command_suffix_def)
  have s1: "command_suffix (d @ [b]) = drop n' (d @ [b])"
    using n' by (simp add: command_suffix_def)
  from verify_grub_command_accepts [OF ok] cf
  have "ReplayedDigest e \<noteq> H hash (drop n' (d @ [b]))"
    by (auto simp: s0 s1)
  with b show ?thesis
    by (intro verify_grub_command_rejects) simp_all
qed

lemma has_valid_prefix_Some:
  "has_valid_prefix d \<longleftrightarrow> (\<exists>n. find_prefix validPrefixes d = Some n)"
  using find_prefix_valid [of d] by (cases "find_prefix validPrefixes d") auto

lemma tpm_command_accepted:
  assumes "tpm_grub_events H hash (e # post) k fs cs = Inr r"
    and "MRIndex e = 8" and "UntrustedType e \<noteq> EventTag"
  shows "UntrustedType e = Ipl \<and>
    (\<exists>n. find_prefix validPrefixes (RawData e) = Some n \<and>
         verify_grub_command H hash k n e = None)"
  using assms by (auto split: if_splits option.splits)

lemma rtmr_command_accepted:
  assumes "rtmr_grub_events H hash (e # post) k cs = Inr r"
    and "MRIndex e = 3" and "UntrustedType e \<noteq> EventTag" and "has_valid_prefix (RawData e)"
  shows "UntrustedType e = Ipl \<and>
    (\<exists>n. find_prefix validPrefixes (RawData e) = Some n \<and>
         verify_grub_command H hash k n e = None)"
  using assms find_prefix_valid [of "RawData e"]
  by (auto split: if_splits option.splits)

text \<open>
  C7 (amended): take a log that the GRUB extraction accepts and in it an event on the
  GRUB commands register that is not an \<open>EV_EVENT_TAG\<close>, whose payload ends in the byte
  0x00 and, in a CC log, begins with a recognized prefix. Replace the final byte by any
  other value. If the hash of the command suffix of the mutated payload differs from the
  hash of the original suffix and from the hash of the original suffix without its NUL,
  the extraction of the mutated log returns an error, for \<open>GrubStateFromTPMLog\<close>
  (PCR 8) and for \<open>GrubStateFromRTMRLog\<close> (measurement register 3).
\<close>

theorem grub_nul_terminator:
  "(GrubStateFromTPMLog H hash (pre @ e # post) = Inr st \<and>
    MRIndex e = 8 \<and> UntrustedType e \<noteq> EventTag \<and> RawData e = d @ [0] \<and> b \<noteq> 0 \<and>
    H hash (command_suffix (d @ [b])) \<noteq> H hash (command_suffix (d @ [0])) \<and>
    H hash (command_suffix (d @ [b])) \<noteq> H hash (butlast (command_suffix (d @ [0]))) \<longrightarrow>
      (\<exists>err. GrubStateFromTPMLog H hash (pre @ e\<lparr>RawData := d @ [b]\<rparr> # post) = Inl err)) \<and>
   (GrubStateFromRTMRLog H hash (pre @ e # post) = Inr st \<and>
    MRIndex e = 3 \<and> UntrustedType e \<noteq> EventTag \<and> has_valid_prefix (RawData e) \<and>
    RawData e = d @ [0] \<and> b \<noteq> 0 \<and>
    H hash (command_suffix (d @ [b])) \<noteq> H hash (command_suffix (d @ [0])) \<and>
    H hash (command_suffix (d @ [b])) \<noteq> H hash (butlast (command_suffix (d @ [0]))) \<longrightarrow>
      (\<exists>err. GrubStateFromRTMRLog H hash (pre @ e\<lparr>RawData := d @ [b]\<rparr> # post) = Inl err))"
proof (intro conjI impI)
  assume h: "GrubStateFromTPMLog H hash (pre @ e # post) = Inr st \<and>
    MRIndex e = 8 \<and> UntrustedType e \<noteq> EventTag \<and> RawData e = d @ [0] \<and> b \<noteq> 0 \<and>
    H hash (command_suffix (d @ [b])) \<noteq> H hash (command_suffix (d @ [0])) \<and>
    H hash (command_suffix (d @ [b])) \<noteq> H hash (butlast (command_suffix (d @ [0])))"
  then obtain r where "tpm_grub_events H hash (pre @ e # post) 0 [] [] = Inr r"
    by (auto simp: GrubStateFromTPMLog_def split: sum.splits)
  then obtain fs cs where pre: "tpm_grub_events H hash pre 0 [] [] = Inr (fs, cs)"
    and step: "tpm_grub_events H hash (e # post) (length pre) fs cs = Inr r"
    by (auto simp: tpm_grub_events_append split: sum.splits)
  from tpm_command_accepted [OF step] h obtain n where ty: "UntrustedType e = Ipl"
    and n: "find_prefix validPrefixes (RawData e) = Some n"
    and ok: "verify_grub_command H hash (length pre) n e = None" by auto
  let ?e' = "e\<lparr>RawData := d @ [b]\<rparr>"
  have "\<exists>err. tpm_grub_events H hash (?e' # post) (length pre) fs cs = Inl err"
  proof (cases "find_prefix validPrefixes (d @ [b])")
    case None
    with h ty show ?thesis by (simp add: Ipl_def EventTag_def)
  next
    case (Some n')
    have "\<exists>err. verify_grub_command H hash (length pre) n' ?e' = Some err"
      by (rule mutated_command_rejected [OF ok n _ _ _ _ Some]) (use h in simp_all)
    then obtain err where "verify_grub_command H hash (length pre) n' ?e' = Some err" ..
    with h ty Some show ?thesis by (simp add: Ipl_def EventTag_def)
  qed
  then show "\<exists>err. GrubStateFromTPMLog H hash (pre @ ?e' # post) = Inl err"
    by (auto simp: GrubStateFromTPMLog_def tpm_grub_events_append pre)
next
  assume h: "GrubStateFromRTMRLog H hash (pre @ e # post) = Inr st \<and>
    MRIndex e = 3 \<and> UntrustedType e \<noteq> EventTag \<and> has_valid_prefix (RawData e) \<and>
    RawData e = d @ [0] \<and> b \<noteq> 0 \<and>
    H hash (command_suffix (d @ [b])) \<noteq> H hash (command_suffix (d @ [0])) \<and>
    H hash (command_suffix (d @ [b])) \<noteq> H hash (butlast (command_suffix (d @ [0])))"
  then obtain r where "rtmr_grub_events H hash (pre @ e # post) 0 [] = Inr r"
    by (auto simp: GrubStateFromRTMRLog_def split: sum.splits)
  then obtain cs where pre: "rtmr_grub_events H hash pre 0 [] = Inr cs"
    and step: "rtmr_grub_events H hash (e # post) (length pre) cs = Inr r"
    by (auto simp: rtmr_grub_events_append split: sum.splits)
  from rtmr_command_accepted [OF step] h obtain n where ty: "UntrustedType e = Ipl"
    and n: "find_prefix validPrefixes (RawData e) = Some n"
    and ok: "verify_grub_command H hash (length pre) n e = None" by auto
  let ?e' = "e\<lparr>RawData := d @ [b]\<rparr>"
  from h have "has_valid_prefix (RawData e)" and "RawData e = d @ [0]" by blast+
  then have "has_valid_prefix (d @ [0])" by simp
  then have "has_valid_prefix (d @ [b])" by (rule has_valid_prefix_mutated)
  then obtain n' where Some: "find_prefix validPrefixes (d @ [b]) = Some n'"
    by (auto simp: has_valid_prefix_Some)
  have "\<exists>err. verify_grub_command H hash (length pre) n' ?e' = Some err"
    by (rule mutated_command_rejected [OF ok n _ _ _ _ Some]) (use h in simp_all)
  then obtain err where "verify_grub_command H hash (length pre) n' ?e' = Some err" ..
  with h ty Some have "\<exists>err. rtmr_grub_events H hash (?e' # post) (length pre) cs = Inl err"
    by (simp add: Ipl_def EventTag_def)
  then show "\<exists>err. GrubStateFromRTMRLog H hash (pre @ ?e' # post) = Inl err"
    by (auto simp: GrubStateFromRTMRLog_def rtmr_grub_events_append pre)
qed

lemma sample_command_suffixes:
  "command_suffix (ls_command @ [0]) = bytes_of ''ls'' @ [0]"
  "command_suffix (ls_command @ [0xFF]) = bytes_of ''ls'' @ [0xFF]"
  by (simp_all add: command_suffix_def sample_prefixes)
     (simp_all add: ls_command_def bytes_of_def)

theorem grub_nul_terminator_witness:
  "GrubStateFromTPMLog toy_hash SHA256 [grub_event 8 Ipl (ls_command @ [0]) [2, 223, 32]] =
     Inr \<lparr>Files = [], Commands = [ls_command @ [0]]\<rparr> \<and>
   (\<exists>err. GrubStateFromTPMLog toy_hash SHA256
            [grub_event 8 Ipl (ls_command @ [0xFF]) [2, 223, 32]] = Inl err) \<and>
   GrubStateFromRTMRLog toy_hash SHA256 [grub_event 3 Ipl (ls_command @ [0]) [3, 223, 32]] =
     Inr \<lparr>Files = [], Commands = [ls_command @ [0]]\<rparr> \<and>
   (\<exists>err. GrubStateFromRTMRLog toy_hash SHA256
            [grub_event 3 Ipl (ls_command @ [0xFF]) [3, 223, 32]] = Inl err)"
proof -
  have cf: "toy_hash SHA256 (command_suffix (ls_command @ [0xFF])) \<noteq>
              toy_hash SHA256 (command_suffix (ls_command @ [0]))"
      "toy_hash SHA256 (command_suffix (ls_command @ [0xFF])) \<noteq>
              toy_hash SHA256 (butlast (command_suffix (ls_command @ [0])))"
    by (simp_all add: sample_command_suffixes sample_hashes butlast_append)
  have vp: "has_valid_prefix (ls_command @ [0])"
    by (simp add: has_valid_prefix_Some sample_prefixes)
  have a: "\<exists>err. GrubStateFromTPMLog toy_hash SHA256
            [grub_event 8 Ipl (ls_command @ [0xFF]) [2, 223, 32]] = Inl err"
    using grub_nul_terminator [of toy_hash SHA256 "[]"
        "grub_event 8 Ipl (ls_command @ [0]) [2, 223, 32]" "[]"
        "\<lparr>Files = [], Commands = [ls_command @ [0]]\<rparr>" ls_command "0xFF"]
      sample_grub_runs(2) cf
    by (simp add: grub_event_def Ipl_def EventTag_def)
  have b: "\<exists>err. GrubStateFromRTMRLog toy_hash SHA256
            [grub_event 3 Ipl (ls_command @ [0xFF]) [3, 223, 32]] = Inl err"
    using grub_nul_terminator [of toy_hash SHA256 "[]"
        "grub_event 3 Ipl (ls_command @ [0]) [3, 223, 32]" "[]"
        "\<lparr>Files = [], Commands = [ls_command @ [0]]\<rparr>" ls_command "0xFF"]
      sample_grub_runs(3) cf vp
    by (simp add: grub_event_def Ipl_def EventTag_def)
  from a b sample_grub_runs(2,3) show ?thesis by blast
qed

text \<open>
  C7 as stated fails on the events that the extraction passes over: an \<open>EV_EVENT_TAG\<close>
  event on PCR 8 of a TPM log, and an \<open>EV_IPL\<close> event without a recognized prefix on
  the GRUB register of a CC log. Their final NUL can be replaced and the log is accepted
  as before; no hash of the mutated payload is taken.
\<close>

theorem skipped_events_keep_nul_mutation:
  "GrubStateFromTPMLog toy_hash SHA256
     [grub_event 8 EventTag [0x41, 0] [], grub_event 8 Ipl ls_command [2, 223, 32]] =
     Inr \<lparr>Files = [], Commands = [ls_command]\<rparr> \<and>
   GrubStateFromTPMLog toy_hash SHA256
     [grub_event 8 EventTag [0x41, 0xFF] [], grub_event 8 Ipl ls_command [2, 223, 32]] =
     Inr \<lparr>Files = [], Commands = [ls_command]\<rparr> \<and>
   GrubStateFromRTMRLog toy_hash SHA256
     [grub_event 3 Ipl (file_path @ [0]) [], grub_event 3 Ipl ls_command [2, 223, 32]] =
     Inr \<lparr>Files = [], Commands = [ls_command]\<rparr> \<and>
   GrubStateFromRTMRLog toy_hash SHA256
     [grub_event 3 Ipl (file_path @ [0xFF]) [], grub_event 3 Ipl ls_command [2, 223, 32]] =
     Inr \<lparr>Files = [], Commands = [ls_command]\<rparr>"
  by (simp add: grub_eval)

section \<open>Separators\<close>

lemma getSeparatorInfo_eq:
  "getSeparatorInfo H hash =
     \<lparr>separatorData = [[0, 0, 0, 0], [0xff, 0xff, 0xff, 0xff]],
      separatorDigests =
        [H hash [0, 0, 0, 0], H hash [0, 0, 0, 0, 0xff, 0xff, 0xff, 0xff]]\<rparr>"
  by (simp add: getSeparatorInfo_def Let_def)

lemma checkIfValidSeparator_accepts:
  "checkIfValidSeparator event (getSeparatorInfo H hash) = Inr True \<longleftrightarrow>
     UntrustedType event = Separator \<and> DigestVerified event \<and>
     (RawData event = [0, 0, 0, 0] \<or> RawData event = [0xff, 0xff, 0xff, 0xff])"
  by (auto simp: checkIfValidSeparator_def getSeparatorInfo_eq Let_def)

lemma checkIfValidSeparator_rejects:
  "UntrustedType event = Separator \<Longrightarrow>
   \<not> DigestVerified event \<or>
     (RawData event \<noteq> [0, 0, 0, 0] \<and> RawData event \<noteq> [0xff, 0xff, 0xff, 0xff]) \<Longrightarrow>
   \<exists>err. checkIfValidSeparator event (getSeparatorInfo H hash) = Inl err"
  by (auto simp: checkIfValidSeparator_def getSeparatorInfo_eq Let_def)

text \<open>
  C5: the second digest that \<open>getSeparatorInfo\<close> computes is the hash of the eight
  bytes 00000000FFFFFFFF, because the hasher is not reset between the two separator
  values. An event on register 0 with the digest \<open>H(FFFFFFFF)\<close> and a type that is not
  \<open>EV_SEPARATOR\<close> is therefore not recognized as separator data: unless the hash
  collides, \<open>checkIfValidSeparator\<close> answers ``no separator, no error'' and
  \<open>PlatformState\<close> succeeds.
\<close>

theorem separator_spoof_undetected:
  assumes "H hash [0xff, 0xff, 0xff, 0xff] \<noteq> H hash [0, 0, 0, 0]"
    and "H hash [0xff, 0xff, 0xff, 0xff] \<noteq> H hash [0, 0, 0, 0, 0xff, 0xff, 0xff, 0xff]"
  shows "checkIfValidSeparator (spoofed_separator H hash) (getSeparatorInfo H hash) = Inr False \<and>
    PlatformState_of H hash [spoofed_separator H hash] =
      Inr \<lparr>Firmware = ScrtmVersionId [], Technology = 0\<rparr>"
proof -
  have c: "checkIfValidSeparator (spoofed_separator H hash) (getSeparatorInfo H hash) = Inr False"
    using assms
    by (simp add: checkIfValidSeparator_def getSeparatorInfo_eq Let_def spoofed_separator_def
          EFIAction_def Separator_def)
  have m: "MRIndex (spoofed_separator H hash) = 0"
      "UntrustedType (spoofed_separator H hash) = EFIAction"
    by (simp_all add: spoofed_separator_def)
  have v: "ConvertSCRTMVersionToGCEFirmwareVersion [] = None" "ParseGCENonHostInfo [] = None"
    by (simp_all add: ConvertSCRTMVersionToGCEFirmwareVersion_def ParseGCENonHostInfo_def
          GceVirtualFirmwarePrefix_def GCENonHostInfoSignature_def Let_def)
  have "PlatformState_of H hash [spoofed_separator H hash] =
      Inr \<lparr>Firmware = ScrtmVersionId [], Technology = 0\<rparr>"
    by (simp add: PlatformState_of_def c m v EFIAction_def SCRTMVersion_def NonhostInfo_def)
  with c show ?thesis by simp
qed

theorem separator_spoof_undetected_witness:
  "toy_hash SHA256 [0xff, 0xff, 0xff, 0xff] \<noteq> toy_hash SHA256 [0, 0, 0, 0] \<and>
   toy_hash SHA256 [0xff, 0xff, 0xff, 0xff] \<noteq>
     toy_hash SHA256 [0, 0, 0, 0, 0xff, 0xff, 0xff, 0xff] \<and>
   UntrustedType (spoofed_separator toy_hash SHA256) \<noteq> Separator \<and>
   ReplayedDigest (spoofed_separator toy_hash SHA256) =
     toy_hash SHA256 [0xff, 0xff, 0xff, 0xff] \<and>
   PlatformState_of toy_hash SHA256 [spoofed_separator toy_hash SHA256] =
      Inr \<lparr>Firmware = ScrtmVersionId [], Technology = 0\<rparr>"
proof -
  have a: "toy_hash SHA256 [0xff, 0xff, 0xff, 0xff] \<noteq> toy_hash SHA256 [0, 0, 0, 0]"
    and b: "toy_hash SHA256 [0xff, 0xff, 0xff, 0xff] \<noteq>
     toy_hash SHA256 [0, 0, 0, 0, 0xff, 0xff, 0xff, 0xff]"
    by (simp_all add: toy_hash_def)
  from separator_spoof_undetected [of toy_hash SHA256, OF a b] a b show ?thesis
    by (simp add: spoofed_separator_def EFIAction_def Separator_def)
qed

section \<open>EFI state and ExitBootServices\<close>

lemma efi_app_event_exit:
  "efi_app_event cfg sepInfo x event w = Inr w1 \<Longrightarrow>
   seenExitBootServices w1 = seenExitBootServices w"
  by (auto simp: efi_app_event_def Let_def split: if_splits sum.splits)

lemma efi_exit_event_exit:
  "efi_exit_event cfg sepInfo x event w = Inr w2 \<Longrightarrow> seenExitBootServices w2 \<Longrightarrow>
   \<not> seenExitBootServices w \<Longrightarrow>
   x = ReplayedDigest event \<and> UntrustedType event = EFIAction \<and> DigestVerified event"
  by (auto simp: efi_exit_event_def Let_def split: if_splits sum.splits)

lemma efi_events_exit:
  "efi_events cfg sepInfo c x events w = Inr w' \<Longrightarrow> seenExitBootServices w' \<Longrightarrow>
   \<not> seenExitBootServices w \<Longrightarrow>
   \<exists>e \<in> set events. MRIndex e = ExitBootServicesIdx cfg \<and> x = ReplayedDigest e \<and>
      UntrustedType e = EFIAction \<and> DigestVerified e"
proof (induction events arbitrary: w)
  case Nil
  then show ?case by simp
next
  case (Cons event rest)
  show ?case
  proof (cases "MRIndex event \<noteq> EFIAppIdx cfg \<and> MRIndex event \<noteq> ExitBootServicesIdx cfg")
    case True
    with Cons.prems have "efi_events cfg sepInfo c x rest w = Inr w'" by simp
    from Cons.IH [OF this Cons.prems(2,3)] show ?thesis by auto
  next
    case False
    with Cons.prems(1) obtain w1 w2 where
      w1: "(if MRIndex event = EFIAppIdx cfg
              then efi_app_event cfg sepInfo c event w else Inr w) = Inr w1"
      and w2: "(if MRIndex event = ExitBootServicesIdx cfg
                   then efi_exit_event cfg sepInfo x event w1 else Inr w1) = Inr w2"
      and rest: "(if seenExitBootServices w2 then Inr w2
                  else efi_events cfg sepInfo c x rest w2) = Inr w'"
      by (auto split: sum.splits)
    from w1 Cons.prems(3) have n1: "\<not> seenExitBootServices w1"
      by (auto split: if_splits dest: efi_app_event_exit)
    show ?thesis
    proof (cases "seenExitBootServices w2")
      case True
      with w2 n1 have "MRIndex event = ExitBootServicesIdx cfg"
        by (auto split: if_splits)
      with w2 True n1 show ?thesis
        by (auto dest: efi_exit_event_exit)
    next
      case no: False
      with rest have "efi_events cfg sepInfo c x rest w2 = Inr w'" by simp
      from Cons.IH [OF this Cons.prems(2) no] show ?thesis by auto
    qed
  qed
qed

text \<open>
  C4 (amended): \<open>EfiState\<close> returns an EFI state only if some event on the
  ExitBootServices register carries the replayed digest of the string
  ``Exit Boot Services Invocation'' with its NUL, with the type \<open>EV_EFI_ACTION\<close> and a verified digest. On an event
  list without such an event it returns no state: either nil without an error, or an
  error raised by the walk over the EFI registers.
\<close>

theorem EfiState_only_after_ExitBootServices:
  "(EfiState_of ext H hash events cfg = Inr (Some st) \<longrightarrow>
      (\<exists>e \<in> set events. MRIndex e = ExitBootServicesIdx cfg \<and>
          ReplayedDigest e = H hash ExitBootServicesInvocation \<and>
          UntrustedType e = EFIAction \<and> DigestVerified e)) \<and>
   ((\<forall>e \<in> set events. \<not> (MRIndex e = ExitBootServicesIdx cfg \<and>
          ReplayedDigest e = H hash ExitBootServicesInvocation)) \<longrightarrow>
      EfiState_of ext H hash events cfg = Inr None \<or>
      (\<exists>err. EfiState_of ext H hash events cfg = Inl err))"
proof -
  have a: "EfiState_of ext H hash events cfg = Inr (Some st) \<longrightarrow>
      (\<exists>e \<in> set events. MRIndex e = ExitBootServicesIdx cfg \<and>
          ReplayedDigest e = H hash ExitBootServicesInvocation \<and>
          UntrustedType e = EFIAction \<and> DigestVerified e)" for st
  proof
    assume "EfiState_of ext H hash events cfg = Inr (Some st)"
    then obtain w where w: "efi_events cfg (getSeparatorInfo H hash)
        (H hash CallingEFIApplication) (H hash ExitBootServicesInvocation) events
        \<lparr>efiAppStates = [], seenSeparator4 = False, seenSeparator5 = False,
         seenCallingEfiApp = False, seenExitBootServices = False\<rparr> = Inr w"
      and s: "seenExitBootServices w"
      by (auto simp: EfiState_of_def Let_def split: sum.splits if_splits)
    from efi_events_exit [OF w s] show "\<exists>e \<in> set events. MRIndex e = ExitBootServicesIdx cfg \<and>
          ReplayedDigest e = H hash ExitBootServicesInvocation \<and>
          UntrustedType e = EFIAction \<and> DigestVerified e" by auto
  qed
  have b: "(\<forall>e \<in> set events. \<not> (MRIndex e = ExitBootServicesIdx cfg \<and>
          ReplayedDigest e = H hash ExitBootServicesInvocation)) \<longrightarrow>
      EfiState_of ext H hash events cfg = Inr None \<or>
      (\<exists>err. EfiState_of ext H hash events cfg = Inl err)"
  proof
    assume no: "\<forall>e \<in> set events. \<not> (MRIndex e = ExitBootServicesIdx cfg \<and>
          ReplayedDigest e = H hash ExitBootServicesInvocation)"
    show "EfiState_of ext H hash events cfg = Inr None \<or>
      (\<exists>err. EfiState_of ext H hash events cfg = Inl err)"
    proof (cases "EfiState_of ext H hash events cfg")
      case (Inl err)
      then show ?thesis by simp
    next
      case (Inr r)
      show ?thesis
      proof (cases r)
        case None
        with Inr show ?thesis by simp
      next
        case (Some st')
        with Inr a [of st'] no show ?thesis by blast
      qed
    qed
  qed
  from a b show ?thesis by blast
qed

lemma toy_action_digests:
  "toy_hash SHA256 CallingEFIApplication = [42, 165, 32]"
  "toy_hash SHA256 ExitBootServicesInvocation = [30, 236, 32]"
  by (simp_all add: toy_hash_def CallingEFIApplication_def ExitBootServicesInvocation_def
        bytes_of_def)

lemmas efi_eval =
  EfiState_of_def EfiDriverState_def efi_app_event_def efi_exit_event_def
  checkIfValidSeparator_def getSeparatorInfo_eq Let_def TPMRegisterConfig_def
  sample_externals_def efi_action_event_def booted_application_def
  efi_application_event_def toy_action_digests EFIAction_def Separator_def
  EFIBootServicesApplication_def

lemma sample_efi_runs:
  "EfiState_of sample_externals toy_hash SHA256
     [efi_action_event 4 CallingEFIApplication, booted_application,
      efi_action_event 5 ExitBootServicesInvocation] (TPMRegisterConfig toy_hash) =
     Inr (Some \<lparr>Apps = [\<lparr>Digest = [9]\<rparr>], BootServicesDrivers = [],
                 RuntimeServicesDrivers = []\<rparr>)"
  "EfiState_of sample_externals toy_hash SHA256
     [efi_action_event 4 CallingEFIApplication, booted_application]
     (TPMRegisterConfig toy_hash) = Inr None"
  by (simp_all add: efi_eval) (simp_all add: toy_hash_def)

theorem EfiState_only_after_ExitBootServices_witness:
  "EfiState_of sample_externals toy_hash SHA256
     [efi_action_event 4 CallingEFIApplication, booted_application,
      efi_action_event 5 ExitBootServicesInvocation] (TPMRegisterConfig toy_hash) =
     Inr (Some \<lparr>Apps = [\<lparr>Digest = [9]\<rparr>], BootServicesDrivers = [],
                 RuntimeServicesDrivers = []\<rparr>) \<and>
   (\<exists>e \<in> set [efi_action_event 4 CallingEFIApplication, booted_application,
               efi_action_event 5 ExitBootServicesInvocation].
      MRIndex e = ExitBootServicesIdx (TPMRegisterConfig toy_hash) \<and>
      ReplayedDigest e = toy_hash SHA256 ExitBootServicesInvocation \<and>
      UntrustedType e = EFIAction \<and> DigestVerified e) \<and>
   EfiState_of sample_externals toy_hash SHA256
     [efi_action_event 4 CallingEFIApplication, booted_application]
     (TPMRegisterConfig toy_hash) = Inr None"
proof -
  have no: "\<forall>e \<in> set [efi_action_event 4 CallingEFIApplication, booted_application].
      \<not> (MRIndex e = ExitBootServicesIdx (TPMRegisterConfig toy_hash) \<and>
         ReplayedDigest e = toy_hash SHA256 ExitBootServicesInvocation)"
    by (simp add: efi_action_event_def booted_application_def TPMRegisterConfig_def)
  note a = EfiState_only_after_ExitBootServices [of sample_externals toy_hash SHA256
      "[efi_action_event 4 CallingEFIApplication, booted_application,
        efi_action_event 5 ExitBootServicesInvocation]" "TPMRegisterConfig toy_hash"
      "\<lparr>Apps = [\<lparr>Digest = [9]\<rparr>], BootServicesDrivers = [], RuntimeServicesDrivers = []\<rparr>"]
  note b = EfiState_only_after_ExitBootServices [of sample_externals toy_hash SHA256
      "[efi_action_event 4 CallingEFIApplication, booted_application]"
      "TPMRegisterConfig toy_hash"]
  from a sample_efi_runs(1) have ex:
    "\<exists>e \<in> set [efi_action_event 4 CallingEFIApplication, booted_application,
               efi_action_event 5 ExitBootServicesInvocation].
      MRIndex e = ExitBootServicesIdx (TPMRegisterConfig toy_hash) \<and>
      ReplayedDigest e = toy_hash SHA256 ExitBootServicesInvocation \<and>
      UntrustedType e = EFIAction \<and> DigestVerified e" by blast
  from b no sample_efi_runs(2) have
    "EfiState_of sample_externals toy_hash SHA256
     [efi_action_event 4 CallingEFIApplication, booted_application]
     (TPMRegisterConfig toy_hash) = Inr None" by blast
  with ex sample_efi_runs(1) show ?thesis by blast
qed

text \<open>
  C4 as stated fails where the walk itself fails: a list whose only event is an
  \<open>EV_EFI_BOOT_SERVICES_APPLICATION\<close> on the application register has no
  ExitBootServices event, and \<open>EfiState\<close> returns an error.
\<close>

theorem EfiState_error_without_ExitBootServices:
  "MRIndex efi_application_event \<noteq> ExitBootServicesIdx (TPMRegisterConfig toy_hash) \<and>
   EfiState_of sample_externals toy_hash SHA256 [efi_application_event]
     (TPMRegisterConfig toy_hash) = Inl (EFIAppBeforeCalling 4)"
  by (simp add: efi_eval)

section \<open>The firmware log state\<close>

lemma FirmwareLogState_of_eq:
  assumes "HashToAlgorithm hash = Inr alg"
  shows "FirmwareLogState_of ext H events hash cfg opts =
    (Some \<lparr>Platform = fst (PlatformExtracter cfg hash events),
            SecureBoot = fst (go_result (SecureBootState_of ext events cfg opts)),
            RawEvents = ConvertToPbEvents ext hash events,
            Hash = alg,
            Grub = fst (if Loader opts = GRUB then GRUBExtracter cfg hash events
                        else (None, None)),
            LinuxKernel =
              fst (if Loader opts = GRUB
                   then go_result (LinuxKernelStateFromGRUB
                          (fst (if Loader opts = GRUB then GRUBExtracter cfg hash events
                                else (None, None))))
                   else (None, None)),
            Efi = (case fst (go_result (EfiState_of ext H hash events cfg)) of
                     None \<Rightarrow> None | Some e \<Rightarrow> e),
            StateLogType = CfgLogType cfg\<rparr>,
     Join (Join (Join (Join (Join [] (snd (PlatformExtracter cfg hash events)))
       (snd (go_result (SecureBootState_of ext events cfg opts))))
       (snd (go_result (EfiState_of ext H hash events cfg))))
       (snd (if Loader opts = GRUB then GRUBExtracter cfg hash events else (None, None))))
       (snd (if Loader opts = GRUB
             then go_result (LinuxKernelStateFromGRUB
                    (fst (if Loader opts = GRUB then GRUBExtracter cfg hash events
                          else (None, None))))
             else (None, None))))"
  using assms
  by (simp add: FirmwareLogState_of_def HashToAlgorithmX_def Let_def split_beta)

lemma Join_mem: "e \<in> set (Join joined err) \<longleftrightarrow> e \<in> set joined \<or> err = Some e"
  by (cases err) (auto simp: Join_def)

lemma go_result_simps:
  "fst (go_result (Inr v)) = Some v" "snd (go_result (Inr v)) = None"
  "fst (go_result (Inl e)) = None" "snd (go_result (Inl e)) = Some e"
  by (simp_all add: go_result_def)

text \<open>
  C3 (amended): for a hash that has a TPM algorithm identifier, \<open>FirmwareLogState\<close>
  returns a state on every event list, with the log type of the register configuration,
  the converted raw events and the identifier of the hash. Each part of the state is what
  its own subsystem returned, whatever the other subsystems did, and the error of every
  failing subsystem (platform, Secure Boot, EFI, and with the GRUB loader GRUB and the
  Linux kernel) is a member of the joined error.
\<close>

theorem FirmwareLogState_partial:
  assumes "HashToAlgorithm hash = Inr alg"
  shows "\<exists>st joined. FirmwareLogState_of ext H events hash cfg opts = (Some st, joined) \<and>
    StateLogType st = CfgLogType cfg \<and>
    RawEvents st = ConvertToPbEvents ext hash events \<and>
    Hash st = alg \<and>
    Platform st = fst (PlatformExtracter cfg hash events) \<and>
    (\<forall>sb. SecureBootState_of ext events cfg opts = Inr sb \<longrightarrow> SecureBoot st = Some sb) \<and>
    (\<forall>efi. EfiState_of ext H hash events cfg = Inr efi \<longrightarrow> Efi st = efi) \<and>
    (Loader opts = GRUB \<longrightarrow>
       Grub st = fst (GRUBExtracter cfg hash events) \<and>
       (\<forall>k. LinuxKernelStateFromGRUB (Grub st) = Inr k \<longrightarrow> LinuxKernel st = Some k)) \<and>
    (\<forall>e. snd (PlatformExtracter cfg hash events) = Some e \<longrightarrow> e \<in> set joined) \<and>
    (\<forall>e. SecureBootState_of ext events cfg opts = Inl e \<longrightarrow> e \<in> set joined) \<and>
    (\<forall>e. EfiState_of ext H hash events cfg = Inl e \<longrightarrow> e \<in> set joined) \<and>
    (Loader opts = GRUB \<longrightarrow>
       (\<forall>e. snd (GRUBExtracter cfg hash events) = Some e \<longrightarrow> e \<in> set joined) \<and>
       (\<forall>e. LinuxKernelStateFromGRUB (fst (GRUBExtracter cfg hash events)) = Inl e \<longrightarrow>
            e \<in> set joined))"
  unfolding FirmwareLogState_of_eq [OF assms]
  by (intro exI conjI) (rule refl, auto simp: Join_mem go_result_simps)

lemma sample_extracters:
  "PlatformExtracter (TPMRegisterConfig toy_hash) SHA256 [] =
     (Some \<lparr>Firmware = ScrtmVersionId [], Technology = 0\<rparr>, None)"
  "GRUBExtracter (TPMRegisterConfig toy_hash) SHA256 [] = (None, Some NoGrubMeasurements)"
  "CfgLogType (TPMRegisterConfig toy_hash) = LOG_TYPE_TCG2"
  by (simp_all add: TPMRegisterConfig_def go_result_def PlatformState_of_def
        GrubStateFromTPMLog_def ConvertSCRTMVersionToGCEFirmwareVersion_def
        ParseGCENonHostInfo_def GceVirtualFirmwarePrefix_def GCENonHostInfoSignature_def
        Let_def)

theorem FirmwareLogState_partial_witness:
  "HashToAlgorithm SHA256 = Inr 11 \<and>
   (\<exists>st joined.
      FirmwareLogState_of sample_externals toy_hash [] SHA256 (TPMRegisterConfig toy_hash)
        grub_opts = (Some st, joined) \<and>
      StateLogType st = LOG_TYPE_TCG2 \<and> Hash st = 11 \<and>
      Platform st = Some \<lparr>Firmware = ScrtmVersionId [], Technology = 0\<rparr> \<and>
      NoGrubMeasurements \<in> set joined)"
proof -
  have a: "HashToAlgorithm SHA256 = Inr 11" by simp
  have g: "Loader grub_opts = GRUB" by (simp add: grub_opts_def)
  from FirmwareLogState_partial [OF a, of sample_externals toy_hash "[]"
      "TPMRegisterConfig toy_hash" grub_opts]
  obtain st joined where r:
      "FirmwareLogState_of sample_externals toy_hash [] SHA256 (TPMRegisterConfig toy_hash)
        grub_opts = (Some st, joined)"
      "StateLogType st = CfgLogType (TPMRegisterConfig toy_hash)"
      "Hash st = 11"
      "Platform st = fst (PlatformExtracter (TPMRegisterConfig toy_hash) SHA256 [])"
      "\<forall>e. snd (GRUBExtracter (TPMRegisterConfig toy_hash) SHA256 []) = Some e \<longrightarrow>
           e \<in> set joined"
    using g by blast
  from r(5) have "NoGrubMeasurements \<in> set joined" by (simp add: sample_extracters)
  with r(1-4) a show ?thesis by (simp add: sample_extracters)
qed

text \<open>
  For every hash without a TPM algorithm identifier the function returns no state, and
  the conversion error alone, whatever the events and the configuration.
\<close>

lemma FirmwareLogState_of_no_TPM_hash:
  "HashToAlgorithm hash = Inl err \<Longrightarrow>
   FirmwareLogState_of ext H events hash cfg opts = (None, [NoTPMHash hash])"
  by (simp add: FirmwareLogState_of_def HashToAlgorithmX_def)

text \<open>
  C3 as stated fails for a hash without a TPM algorithm identifier: the function returns
  nil and the conversion error before any subsystem runs.
\<close>

theorem FirmwareLogState_no_state_without_TPM_hash:
  "FirmwareLogState_of sample_externals toy_hash [] MD5 (TPMRegisterConfig toy_hash)
     grub_opts = (None, [NoTPMHash MD5])"
  by (simp add: FirmwareLogState_of_def HashToAlgorithmX_def)

end
